theory Spec2Isabelle
  imports Main "HOL-Library.Word"
begin

section \<open>The contract AutoEcuFHE: data model\<close>

text \<open>
  Shallow embedding of \<^verbatim>\<open>contracts/AutoEcuFHE.sol\<close> (Solidity 0.8.24, checked
  arithmetic). Storage is a record; every public function is a function from the
  storage to either an error (the transaction reverts, storage is rolled back) or the
  new storage together with the events emitted.
\<close>

type_synonym uint256 = "256 word"
type_synonym uint32 = "32 word"
type_synonym address = "160 word"
type_synonym bytes32 = "256 word"
type_synonym bytes = "8 word list"

text \<open>\<^verbatim>\<open>euint32\<close> is a user-defined value type over \<^verbatim>\<open>bytes32\<close>: an opaque handle.\<close>

type_synonym euint32 = "256 word"

record EncryptedCanMessage =
  msg_id :: uint256
  encryptedCommand :: euint32
  encryptedSourceEcu :: euint32
  encryptedTargetEcu :: euint32
  timestamp :: uint256

record DecryptedCanMessage =
  command :: string
  sourceEcu :: string
  targetEcu :: string
  isVerified :: bool

text \<open>Solidity mappings are total: an absent key reads as the zero value.\<close>

record AutoEcuFHE =
  messageCount :: uint256
  encryptedMessages :: "uint256 \<Rightarrow> EncryptedCanMessage"
  decryptedMessages :: "uint256 \<Rightarrow> DecryptedCanMessage"
  encryptedEcuStats :: "string \<Rightarrow> euint32"
  ecuList :: "string list"
  requestToMessageId :: "uint256 \<Rightarrow> uint256"

datatype event =
  MessageReceived uint256 uint256
| VerificationRequested uint256
| MessageVerified uint256

text \<open>
  Ways a call aborts: \<^verbatim>\<open>require\<close>/\<^verbatim>\<open>revert\<close> with a reason string, the
  arithmetic panic of checked arithmetic, the revert of \<^verbatim>\<open>FHE.checkSignatures\<close>
  on a bad proof, the revert of \<^verbatim>\<open>abi.decode\<close> on a malformed payload, and the
  revert of one of the library calls \<^verbatim>\<open>FHE.requestDecryption\<close>, \<^verbatim>\<open>FHE.asEuint32\<close>
  and \<^verbatim>\<open>FHE.add\<close> (the library refuses handles the contract is not allowed on).
\<close>

datatype error =
  Revert string
| Panic_overflow
| InvalidProof
| DecodeFailure
| LibraryRevert

datatype selector = verifyCommand_selector | decryptEcuStats_selector

text \<open>
  The imported FHE library and the EVM built-ins \<^verbatim>\<open>keccak256\<close> and
  \<^verbatim>\<open>abi.decode\<close> are not part of the repository: they are parameters of the model.
  A library call that goes to the coprocessor can revert: \<^verbatim>\<open>FHE.asEuint32\<close> and
  \<^verbatim>\<open>FHE.add\<close> return \<open>None\<close> then, and the handle of the result otherwise.
\<close>

record ext =
  FHE_asEuint32 :: "uint32 \<Rightarrow> euint32 option"
  FHE_add :: "euint32 \<Rightarrow> euint32 \<Rightarrow> euint32 option"
  FHE_isInitialized :: "euint32 \<Rightarrow> bool"
  FHE_toBytes32 :: "euint32 \<Rightarrow> bytes32"
  FHE_checkSignatures :: "uint256 \<Rightarrow> bytes \<Rightarrow> bytes \<Rightarrow> bool"
  keccak256 :: "bytes \<Rightarrow> bytes32"
  abi_decode_strings :: "bytes \<Rightarrow> (string \<times> string \<times> string) option"
  abi_decode_uint32 :: "bytes \<Rightarrow> uint32 option"

text \<open>
  What varies from one transaction to the next: the caller, the block timestamp and the
  answer of \<^verbatim>\<open>FHE.requestDecryption\<close>: the request id of the decryption oracle, or
  \<open>None\<close> when the library reverts.
\<close>

record transaction =
  msg_sender :: address
  block_timestamp :: uint256
  FHE_requestDecryption :: "bytes32 list \<Rightarrow> selector \<Rightarrow> uint256 option"

type_synonym outcome = "error + (AutoEcuFHE \<times> event list)"

section \<open>Checked arithmetic\<close>

definition checked_add :: "uint256 \<Rightarrow> uint256 \<Rightarrow> error + uint256" where
  "checked_add a b = (if unat a + unat b < 2 ^ 256 then Inr (a + b) else Inl Panic_overflow)"

definition checked_mul :: "uint256 \<Rightarrow> uint256 \<Rightarrow> error + uint256" where
  "checked_mul a b = (if unat a * unat b < 2 ^ 256 then Inr (a * b) else Inl Panic_overflow)"

section \<open>Storage at deployment\<close>

definition zero_encrypted :: EncryptedCanMessage where
  "zero_encrypted = \<lparr>msg_id = 0, encryptedCommand = 0, encryptedSourceEcu = 0,
     encryptedTargetEcu = 0, timestamp = 0\<rparr>"

definition zero_decrypted :: DecryptedCanMessage where
  "zero_decrypted = \<lparr>command = [], sourceEcu = [], targetEcu = [], isVerified = False\<rparr>"

definition init_contract :: AutoEcuFHE where
  "init_contract = \<lparr>messageCount = 0, encryptedMessages = (\<lambda>_. zero_encrypted),
     decryptedMessages = (\<lambda>_. zero_decrypted), encryptedEcuStats = (\<lambda>_. 0),
     ecuList = [], requestToMessageId = (\<lambda>_. 0)\<rparr>"

section \<open>The functions of the contract\<close>

text \<open>The modifier has the body \<^verbatim>\<open>_;\<close> only: it runs the function and checks nothing.\<close>

definition onlyAuthorized :: "uint256 \<Rightarrow> outcome \<Rightarrow> outcome" where
  "onlyAuthorized messageId body = body"

definition submitEncryptedCanMessage ::
  "transaction \<Rightarrow> euint32 \<Rightarrow> euint32 \<Rightarrow> euint32 \<Rightarrow> AutoEcuFHE \<Rightarrow> outcome" where
  "submitEncryptedCanMessage tx eCommand eSourceEcu eTargetEcu s =
     (case checked_add (messageCount s) 1 of
        Inl e \<Rightarrow> Inl e
      | Inr newId \<Rightarrow>
          Inr (s\<lparr>messageCount := newId,
                 encryptedMessages := (encryptedMessages s)(newId :=
                   \<lparr>msg_id = newId, encryptedCommand = eCommand,
                    encryptedSourceEcu = eSourceEcu, encryptedTargetEcu = eTargetEcu,
                    timestamp = block_timestamp tx\<rparr>),
                 decryptedMessages := (decryptedMessages s)(newId :=
                   \<lparr>command = [], sourceEcu = [], targetEcu = [], isVerified = False\<rparr>)\<rparr>,
               [MessageReceived newId (block_timestamp tx)]))"

definition requestCommandVerification ::
  "ext \<Rightarrow> transaction \<Rightarrow> uint256 \<Rightarrow> AutoEcuFHE \<Rightarrow> outcome" where
  "requestCommandVerification x tx messageId s =
     onlyAuthorized messageId
       (let msg = encryptedMessages s messageId in
        if isVerified (decryptedMessages s messageId) then Inl (Revert ''Already verified'')
        else
          let ciphertexts = [FHE_toBytes32 x (encryptedCommand msg),
                             FHE_toBytes32 x (encryptedSourceEcu msg),
                             FHE_toBytes32 x (encryptedTargetEcu msg)]
          in (case FHE_requestDecryption tx ciphertexts verifyCommand_selector of
                None \<Rightarrow> Inl LibraryRevert
              | Some reqId \<Rightarrow>
                  Inr (s\<lparr>requestToMessageId := (requestToMessageId s)(reqId := messageId)\<rparr>,
                       [VerificationRequested messageId])))"

text \<open>
  Lines 103 to 110 of the source, the two statements of \<^verbatim>\<open>verifyCommand\<close> after the
  writes to the decrypted record: the counter of the source ECU is created when it is
  not initialised, then incremented. Each library call can revert, which reverts the
  callback.
\<close>

definition verifyCommand_counter :: "ext \<Rightarrow> string \<Rightarrow> AutoEcuFHE \<Rightarrow> error + AutoEcuFHE" where
  "verifyCommand_counter x src s1 =
     (case (if FHE_isInitialized x (encryptedEcuStats s1 src) = False
            then (case FHE_asEuint32 x 0 of
                    None \<Rightarrow> Inl LibraryRevert
                  | Some zero \<Rightarrow>
                      Inr (s1\<lparr>encryptedEcuStats := (encryptedEcuStats s1)(src := zero),
                              ecuList := ecuList s1 @ [src]\<rparr>))
            else Inr s1) of
        Inl e \<Rightarrow> Inl e
      | Inr s2 \<Rightarrow>
          (case FHE_asEuint32 x 1 of
             None \<Rightarrow> Inl LibraryRevert
           | Some one \<Rightarrow>
               (case FHE_add x (encryptedEcuStats s2 src) one of
                  None \<Rightarrow> Inl LibraryRevert
                | Some incr \<Rightarrow>
                    Inr (s2\<lparr>encryptedEcuStats := (encryptedEcuStats s2)(src := incr)\<rparr>))))"

text \<open>The counter a successful callback increments: the stored one, or a fresh one.\<close>

definition counter_before :: "ext \<Rightarrow> AutoEcuFHE \<Rightarrow> string \<Rightarrow> euint32 option" where
  "counter_before x s src =
     (if FHE_isInitialized x (encryptedEcuStats s src) then Some (encryptedEcuStats s src)
      else FHE_asEuint32 x 0)"

definition verifyCommand :: "ext \<Rightarrow> uint256 \<Rightarrow> bytes \<Rightarrow> bytes \<Rightarrow> AutoEcuFHE \<Rightarrow> outcome" where
  "verifyCommand x requestId cleartexts prf s =
     (let messageId = requestToMessageId s requestId in
      if messageId = 0 then Inl (Revert ''Invalid request'')
      else if isVerified (decryptedMessages s messageId) then Inl (Revert ''Already verified'')
      else if \<not> FHE_checkSignatures x requestId cleartexts prf then Inl InvalidProof
      else
        (case abi_decode_strings x cleartexts of
           None \<Rightarrow> Inl DecodeFailure
         | Some (cmd, src, tgt) \<Rightarrow>
             let s1 = s\<lparr>decryptedMessages := (decryptedMessages s)(messageId :=
                        \<lparr>command = cmd, sourceEcu = src, targetEcu = tgt, isVerified = True\<rparr>)\<rparr>
             in (case verifyCommand_counter x src s1 of
                   Inl e \<Rightarrow> Inl e
                 | Inr s3 \<Rightarrow> Inr (s3, [MessageVerified messageId]))))"

definition getDecryptedMessage :: "AutoEcuFHE \<Rightarrow> uint256 \<Rightarrow> string \<times> string \<times> string \<times> bool" where
  "getDecryptedMessage s messageId =
     (let m = decryptedMessages s messageId
      in (command m, sourceEcu m, targetEcu m, isVerified m))"

definition getEncryptedEcuStats :: "AutoEcuFHE \<Rightarrow> string \<Rightarrow> euint32" where
  "getEncryptedEcuStats s ecuId = encryptedEcuStats s ecuId"

text \<open>\<^verbatim>\<open>abi.encodePacked\<close> of one string is the string's bytes.\<close>

definition abi_encodePacked :: "string \<Rightarrow> bytes" where
  "abi_encodePacked str = map of_char str"

definition bytes32ToUint :: "bytes32 \<Rightarrow> uint256" where
  "bytes32ToUint b = b"

definition requestEcuStatsDecryption ::
  "ext \<Rightarrow> transaction \<Rightarrow> string \<Rightarrow> AutoEcuFHE \<Rightarrow> outcome" where
  "requestEcuStatsDecryption x tx ecuId s =
     (let stats = encryptedEcuStats s ecuId in
      if \<not> FHE_isInitialized x stats then Inl (Revert ''ECU not found'')
      else
        let ciphertexts = [FHE_toBytes32 x stats]
        in (case FHE_requestDecryption tx ciphertexts decryptEcuStats_selector of
              None \<Rightarrow> Inl LibraryRevert
            | Some reqId \<Rightarrow>
                Inr (s\<lparr>requestToMessageId := (requestToMessageId s)(reqId :=
                        bytes32ToUint (keccak256 x (abi_encodePacked ecuId)))\<rparr>, [])))"

text \<open>The scan of \<^verbatim>\<open>ecuList\<close> from index 0: the first name whose hash matches.\<close>

fun getEcuFromHash_scan :: "ext \<Rightarrow> string list \<Rightarrow> uint256 \<Rightarrow> error + string" where
  "getEcuFromHash_scan x [] hash = Inl (Revert ''ECU not found'')"
| "getEcuFromHash_scan x (e # es) hash =
     (if bytes32ToUint (keccak256 x (abi_encodePacked e)) = hash then Inr e
      else getEcuFromHash_scan x es hash)"

definition getEcuFromHash :: "ext \<Rightarrow> AutoEcuFHE \<Rightarrow> uint256 \<Rightarrow> error + string" where
  "getEcuFromHash x s hash = getEcuFromHash_scan x (ecuList s) hash"

definition decryptEcuStats :: "ext \<Rightarrow> uint256 \<Rightarrow> bytes \<Rightarrow> bytes \<Rightarrow> AutoEcuFHE \<Rightarrow> outcome" where
  "decryptEcuStats x requestId cleartexts prf s =
     (let ecuHash = requestToMessageId s requestId in
      case getEcuFromHash x s ecuHash of
        Inl e \<Rightarrow> Inl e
      | Inr ecuId \<Rightarrow>
          if \<not> FHE_checkSignatures x requestId cleartexts prf then Inl InvalidProof
          else
            (case abi_decode_uint32 x cleartexts of
               None \<Rightarrow> Inl DecodeFailure
             | Some stats \<Rightarrow> Inr (s, [])))"

definition validateCommand :: "AutoEcuFHE \<Rightarrow> string \<Rightarrow> string \<Rightarrow> string \<Rightarrow> bool" where
  "validateCommand s cmd src tgt = True"

text \<open>One iteration of the loop of \<^verbatim>\<open>calculateEcuTrustScore\<close>, at index \<open>i\<close>.\<close>

definition calculateEcuTrustScore_body ::
  "ext \<Rightarrow> AutoEcuFHE \<Rightarrow> string \<Rightarrow> uint256 \<Rightarrow> uint256 \<Rightarrow> uint256 \<Rightarrow> error + (uint256 \<times> uint256)" where
  "calculateEcuTrustScore_body x s ecuId i validCount totalCount =
     (let d = decryptedMessages s i in
      if isVerified d \<and>
         keccak256 x (abi_encodePacked (sourceEcu d)) = keccak256 x (abi_encodePacked ecuId)
      then
        (case checked_add totalCount 1 of
           Inl e \<Rightarrow> Inl e
         | Inr totalCount' \<Rightarrow>
             if validateCommand s (command d) (sourceEcu d) (targetEcu d)
             then (case checked_add validCount 1 of
                     Inl e \<Rightarrow> Inl e
                   | Inr validCount' \<Rightarrow> Inr (validCount', totalCount'))
             else Inr (validCount, totalCount'))
      else Inr (validCount, totalCount))"

function calculateEcuTrustScore_loop ::
  "ext \<Rightarrow> AutoEcuFHE \<Rightarrow> string \<Rightarrow> uint256 \<Rightarrow> uint256 \<Rightarrow> uint256 \<Rightarrow> error + (uint256 \<times> uint256)" where
  "calculateEcuTrustScore_loop x s ecuId i validCount totalCount =
     (if i \<le> messageCount s then
        (case calculateEcuTrustScore_body x s ecuId i validCount totalCount of
           Inl e \<Rightarrow> Inl e
         | Inr (validCount', totalCount') \<Rightarrow>
             (case checked_add i 1 of
                Inl e \<Rightarrow> Inl e
              | Inr i' \<Rightarrow> calculateEcuTrustScore_loop x s ecuId i' validCount' totalCount'))
      else Inr (validCount, totalCount))"
  by pat_completeness auto

lemma checked_add_Inr_unat:
  "checked_add a b = Inr c \<Longrightarrow> c = a + b \<and> unat c = unat a + unat b"
  by (auto simp: checked_add_def unat_word_ariths split: if_splits)

termination calculateEcuTrustScore_loop
proof (relation "measure (\<lambda>(x, s, ecuId, i, v, t). Suc (unat (messageCount s)) - unat i)")
  show "wf (measure (\<lambda>(x, s, ecuId, i, v, t). Suc (unat (messageCount s)) - unat i))"
    by simp
next
  fix x :: ext and s :: AutoEcuFHE and ecuId :: string
    and i validCount totalCount :: uint256 and r xa y i'
  assume le: "i \<le> messageCount s" and step: "checked_add i 1 = Inr i'"
  from step have "unat i' = unat i + 1"
    using checked_add_Inr_unat by fastforce
  moreover from le have "unat i \<le> unat (messageCount s)"
    by (simp add: word_le_nat_alt)
  ultimately show "((x, s, ecuId, i', xa, y), (x, s, ecuId, i, validCount, totalCount))
      \<in> measure (\<lambda>(x, s, ecuId, i, v, t). Suc (unat (messageCount s)) - unat i)"
    by simp
qed

declare calculateEcuTrustScore_loop.simps [simp del]

definition calculateEcuTrustScore :: "ext \<Rightarrow> AutoEcuFHE \<Rightarrow> string \<Rightarrow> error + uint256" where
  "calculateEcuTrustScore x s ecuId =
     (case calculateEcuTrustScore_loop x s ecuId 1 0 0 of
        Inl e \<Rightarrow> Inl e
      | Inr (validCount, totalCount) \<Rightarrow>
          if totalCount > 0 then
            (case checked_mul validCount 100 of
               Inl e \<Rightarrow> Inl e
             | Inr p \<Rightarrow> Inr (p div totalCount))
          else Inr 100)"

text \<open>
  The quantities of the specification of the trust score: the ids assigned so far, those
  whose message is verified with the given source ECU, and those of them that pass
  \<^verbatim>\<open>validateCommand\<close>.
\<close>

definition message_ids :: "AutoEcuFHE \<Rightarrow> uint256 list" where
  "message_ids s = map of_nat [1 ..< Suc (unat (messageCount s))]"

definition verified_from :: "AutoEcuFHE \<Rightarrow> string \<Rightarrow> uint256 list" where
  "verified_from s ecuId =
     filter (\<lambda>i. isVerified (decryptedMessages s i) \<and> sourceEcu (decryptedMessages s i) = ecuId)
       (message_ids s)"

definition passing :: "AutoEcuFHE \<Rightarrow> string \<Rightarrow> uint256 list" where
  "passing s ecuId =
     filter (\<lambda>i. validateCommand s (command (decryptedMessages s i))
                    (sourceEcu (decryptedMessages s i)) (targetEcu (decryptedMessages s i)))
       (verified_from s ecuId)"

text \<open>The test of the loop body at index \<open>i\<close>.\<close>

definition trust_hit :: "ext \<Rightarrow> AutoEcuFHE \<Rightarrow> string \<Rightarrow> uint256 \<Rightarrow> bool" where
  "trust_hit x s ecuId i \<longleftrightarrow>
     isVerified (decryptedMessages s i) \<and>
     keccak256 x (abi_encodePacked (sourceEcu (decryptedMessages s i)))
       = keccak256 x (abi_encodePacked ecuId)"

definition trust_hits :: "ext \<Rightarrow> AutoEcuFHE \<Rightarrow> string \<Rightarrow> nat \<Rightarrow> nat \<Rightarrow> nat" where
  "trust_hits x s ecuId lo hi = length (filter (\<lambda>j. trust_hit x s ecuId (of_nat j)) [lo ..< hi])"

section \<open>Transactions and reachable storage\<close>

datatype call =
  SubmitEncryptedCanMessage euint32 euint32 euint32
| RequestCommandVerification uint256
| VerifyCommand uint256 bytes bytes
| RequestEcuStatsDecryption string
| DecryptEcuStats uint256 bytes bytes

text \<open>The state-changing entry points, as a caller reaches them.\<close>

fun dispatch :: "ext \<Rightarrow> transaction \<Rightarrow> call \<Rightarrow> AutoEcuFHE \<Rightarrow> outcome" where
  "dispatch x tx (SubmitEncryptedCanMessage c a b) s = submitEncryptedCanMessage tx c a b s"
| "dispatch x tx (RequestCommandVerification messageId) s =
     requestCommandVerification x tx messageId s"
| "dispatch x tx (VerifyCommand requestId cleartexts prf) s =
     verifyCommand x requestId cleartexts prf s"
| "dispatch x tx (RequestEcuStatsDecryption ecuId) s = requestEcuStatsDecryption x tx ecuId s"
| "dispatch x tx (DecryptEcuStats requestId cleartexts prf) s =
     decryptEcuStats x requestId cleartexts prf s"

text \<open>
  A transaction either commits the new storage or reverts: then the storage is the one
  before the call and no event is logged.
\<close>

definition execute :: "ext \<Rightarrow> transaction \<Rightarrow> call \<Rightarrow> AutoEcuFHE \<Rightarrow> AutoEcuFHE \<times> (error + event list)" where
  "execute x tx c s =
     (case dispatch x tx c s of
        Inl e \<Rightarrow> (s, Inl e)
      | Inr (s', evs) \<Rightarrow> (s', Inr evs))"

fun run :: "ext \<Rightarrow> (transaction \<times> call) list \<Rightarrow> AutoEcuFHE \<Rightarrow> AutoEcuFHE" where
  "run x [] s = s"
| "run x ((tx, c) # cs) s = run x cs (fst (execute x tx c s))"

text \<open>The message ids of the successful \<^verbatim>\<open>verifyCommand\<close> callbacks of a run, in order.\<close>

fun verified_ids :: "ext \<Rightarrow> (transaction \<times> call) list \<Rightarrow> AutoEcuFHE \<Rightarrow> uint256 list" where
  "verified_ids x [] s = []"
| "verified_ids x ((tx, VerifyCommand requestId cleartexts prf) # cs) s =
     (if isl (verifyCommand x requestId cleartexts prf s) then []
      else [requestToMessageId s requestId])
     @ verified_ids x cs (fst (execute x tx (VerifyCommand requestId cleartexts prf) s))"
| "verified_ids x ((tx, c) # cs) s = verified_ids x cs (fst (execute x tx c s))"

text \<open>
  The request ids a run has obtained for the decryption of a counter, in order: the
  answers of \<^verbatim>\<open>FHE.requestDecryption\<close> to its successful
  \<^verbatim>\<open>requestEcuStatsDecryption\<close> calls.
\<close>

fun stats_request_ids :: "ext \<Rightarrow> (transaction \<times> call) list \<Rightarrow> AutoEcuFHE \<Rightarrow> uint256 list" where
  "stats_request_ids x [] s = []"
| "stats_request_ids x ((tx, RequestEcuStatsDecryption ecuId) # cs) s =
     (if isl (requestEcuStatsDecryption x tx ecuId s) then []
      else (case FHE_requestDecryption tx [FHE_toBytes32 x (encryptedEcuStats s ecuId)]
                   decryptEcuStats_selector of
              None \<Rightarrow> []
            | Some reqId \<Rightarrow> [reqId]))
     @ stats_request_ids x cs (fst (execute x tx (RequestEcuStatsDecryption ecuId) s))"
| "stats_request_ids x ((tx, c) # cs) s = stats_request_ids x cs (fst (execute x tx c s))"




inductive reachable :: "ext \<Rightarrow> AutoEcuFHE \<Rightarrow> bool" for x :: ext where
  reachable_init: "reachable x init_contract"
| reachable_step: "reachable x s \<Longrightarrow> dispatch x tx c s = Inr (s', evs) \<Longrightarrow> reachable x s'"

section \<open>A concrete environment and concrete runs\<close>

text \<open>
  A small stand-in for the external library, used to run the model on concrete inputs:
  handles are numbers, a handle is initialised when it is not zero, and the two
  coprocessor calls always succeed. A proof is valid when it is the single byte 7; for
  the request id 9, which the runs below use for the decryption of a counter, the oracle
  signs the payload \<open>[3]\<close> only. Two payloads decode to three strings, \<open>[3]\<close> does not.
\<close>

definition demo_keccak :: "bytes \<Rightarrow> bytes32" where
  "demo_keccak bs = foldl (\<lambda>h b. 257 * h + ucast b + 1) 0 bs"

definition demo_decode :: "bytes \<Rightarrow> (string \<times> string \<times> string) option" where
  "demo_decode c =
     (if c = [1] then Some (''SET_TORQUE'', ''ECU_A'', ''ECU_B'')
      else if c = [2] then Some (''BRAKE'', ''ECU_A'', ''ECU_C'')
      else None)"

definition demo_ext :: ext where
  "demo_ext = \<lparr>FHE_asEuint32 = (\<lambda>v. Some (ucast v + 1)),
     FHE_add = (\<lambda>a b. Some (if a + b = 0 then 1 else a + b)),
     FHE_isInitialized = (\<lambda>h. h \<noteq> 0),
     FHE_toBytes32 = (\<lambda>h. h),
     FHE_checkSignatures = (\<lambda>r c p. p = [7] \<and> (r = 9 \<longrightarrow> c = [3])),
     keccak256 = demo_keccak,
     abi_decode_strings = demo_decode,
     abi_decode_uint32 = (\<lambda>c. case c of [b] \<Rightarrow> Some (ucast b) | _ \<Rightarrow> None)\<rparr>"

text \<open>
  The same library, except that \<^verbatim>\<open>FHE.add\<close> accepts only the fresh handle of 0 (the
  handle 1) on the left: it refuses a counter read back from storage.
\<close>

definition strict_ext :: ext where
  "strict_ext = demo_ext\<lparr>FHE_add := (\<lambda>a b. if a = 1 then Some (a + b) else None)\<rparr>"

text \<open>
  A transaction in which \<^verbatim>\<open>FHE.requestDecryption\<close> refuses a request with the zero
  handle among its ciphertexts and answers any other with the request id \<open>r\<close>; one in
  which it refuses every request; one in which it accepts every request.
\<close>

definition demo_tx :: "uint256 \<Rightarrow> transaction" where
  "demo_tx r = \<lparr>msg_sender = 0, block_timestamp = 1000,
     FHE_requestDecryption = (\<lambda>cts sel. if 0 \<in> set cts then None else Some r)\<rparr>"

definition refusing_tx :: transaction where
  "refusing_tx = \<lparr>msg_sender = 0, block_timestamp = 1000,
     FHE_requestDecryption = (\<lambda>cts sel. None)\<rparr>"

definition zero_tx :: transaction where
  "zero_tx = \<lparr>msg_sender = 0, block_timestamp = 0, FHE_requestDecryption = (\<lambda>_ _. Some 0)\<rparr>"

text \<open>
  One message is submitted, its verification is requested twice (the oracle answers with
  the request ids 7 and 8) and the callback for request 7 is delivered.
\<close>

definition demo_requested :: AutoEcuFHE where
  "demo_requested = run demo_ext
     [(demo_tx 0, SubmitEncryptedCanMessage 11 12 13),
      (demo_tx 7, RequestCommandVerification 1),
      (demo_tx 8, RequestCommandVerification 1)] init_contract"

definition demo_verified :: AutoEcuFHE where
  "demo_verified = run demo_ext [(demo_tx 0, VerifyCommand 7 [1] [7])] demo_requested"

text \<open>Then the decryption of the counter of \<open>ECU_A\<close> is requested (request id 9).\<close>

definition demo_stats_requested :: AutoEcuFHE where
  "demo_stats_requested = run demo_ext [(demo_tx 9, RequestEcuStatsDecryption ''ECU_A'')] demo_verified"

text \<open>A second message is submitted and verified; its source is \<open>ECU_A\<close> again.\<close>

definition demo_second_requested :: AutoEcuFHE where
  "demo_second_requested = run demo_ext
     [(demo_tx 0, SubmitEncryptedCanMessage 21 22 23),
      (demo_tx 10, RequestCommandVerification 2)] demo_stats_requested"

definition demo_second_verified :: AutoEcuFHE where
  "demo_second_verified = run demo_ext [(demo_tx 0, VerifyCommand 10 [2] [7])] demo_second_requested"


text \<open>
  The storage after \<open>2 ^ 256 - 1\<close> submissions of the handles 0, 0, 0 at timestamp 0:
  the counter holds the largest \<^verbatim>\<open>uint256\<close>.
\<close>

definition demo_full :: AutoEcuFHE where
  "demo_full = \<lparr>messageCount = - 1,
     encryptedMessages = (\<lambda>i. zero_encrypted\<lparr>msg_id := i\<rparr>),
     decryptedMessages = (\<lambda>_. zero_decrypted), encryptedEcuStats = (\<lambda>_. 0),
     ecuList = [], requestToMessageId = (\<lambda>_. 0)\<rparr>"

text \<open>The storage after \<open>n\<close> such submissions.\<close>

definition submitted_state :: "nat \<Rightarrow> AutoEcuFHE" where
  "submitted_state n = \<lparr>messageCount = of_nat n,
     encryptedMessages = (\<lambda>i. if unat i \<le> n then zero_encrypted\<lparr>msg_id := i\<rparr>
                              else zero_encrypted),
     decryptedMessages = (\<lambda>_. zero_decrypted), encryptedEcuStats = (\<lambda>_. 0),
     ecuList = [], requestToMessageId = (\<lambda>_. 0)\<rparr>"

section \<open>Auxiliary facts\<close>

lemmas demo_defs = demo_requested_def demo_verified_def demo_stats_requested_def
  demo_second_requested_def demo_second_verified_def demo_ext_def strict_ext_def demo_tx_def demo_decode_def demo_keccak_def init_contract_def
  zero_decrypted_def zero_encrypted_def execute_def
  submitEncryptedCanMessage_def requestCommandVerification_def verifyCommand_def
  verifyCommand_counter_def requestEcuStatsDecryption_def decryptEcuStats_def getEcuFromHash_def
  onlyAuthorized_def checked_add_def abi_encodePacked_def bytes32ToUint_def Let_def

lemma demo_requested_fields:
  "messageCount demo_requested = 1"
  "requestToMessageId demo_requested 7 = 1"
  "requestToMessageId demo_requested 8 = 1"
  "requestToMessageId demo_requested 5 = 0"
  "decryptedMessages demo_requested 1 = zero_decrypted"
  "ecuList demo_requested = []"
  by (simp_all add: demo_defs)

lemma demo_verified_fields:
  "messageCount demo_verified = 1"
  "requestToMessageId demo_verified 7 = 1"
  "requestToMessageId demo_verified 8 = 1"
  "decryptedMessages demo_verified 1 = \<lparr>command = ''SET_TORQUE'', sourceEcu = ''ECU_A'',
     targetEcu = ''ECU_B'', isVerified = True\<rparr>"
  "ecuList demo_verified = [''ECU_A'']"
  "encryptedEcuStats demo_verified ''ECU_A'' = 3"
  by (simp_all add: demo_defs)

lemma demo_stats_requested_fields:
  "messageCount demo_stats_requested = 1"
  "requestToMessageId demo_stats_requested 8 = 1"
  "decryptedMessages demo_stats_requested 1 = \<lparr>command = ''SET_TORQUE'',
     sourceEcu = ''ECU_A'', targetEcu = ''ECU_B'', isVerified = True\<rparr>"
  by (simp_all add: demo_defs)

lemma demo_second_verified_fields:
  "messageCount demo_second_verified = 2"
  "requestToMessageId demo_second_verified 10 = 2"
  "decryptedMessages demo_second_verified 2 = \<lparr>command = ''BRAKE'', sourceEcu = ''ECU_A'',
     targetEcu = ''ECU_C'', isVerified = True\<rparr>"
  "ecuList demo_second_verified = [''ECU_A'']"
  "encryptedEcuStats demo_second_verified ''ECU_A'' = 5"
  by (simp_all add: demo_defs)

lemma execute_Inl: "dispatch x tx c s = Inl e \<Longrightarrow> execute x tx c s = (s, Inl e)"
  by (simp add: execute_def)

lemma execute_Inr: "dispatch x tx c s = Inr (s', evs) \<Longrightarrow> execute x tx c s = (s', Inr evs)"
  by (simp add: execute_def)

lemma reachable_execute: "reachable x s \<Longrightarrow> reachable x (fst (execute x tx c s))"
proof (cases "dispatch x tx c s")
  case (Inl e)
  assume "reachable x s"
  with Inl show ?thesis by (simp add: execute_Inl)
next
  case (Inr r)
  assume "reachable x s"
  with Inr show ?thesis
    by (cases r) (auto simp: execute_Inr intro: reachable_step)
qed

lemma reachable_run: "reachable x s \<Longrightarrow> reachable x (run x cs s)"
proof (induction cs arbitrary: s)
  case Nil
  then show ?case by simp
next
  case (Cons tc cs)
  obtain tx c where tc: "tc = (tx, c)" by (cases tc)
  from Cons.prems have "reachable x (fst (execute x tx c s))"
    by (rule reachable_execute)
  then have "reachable x (run x cs (fst (execute x tx c s)))"
    by (rule Cons.IH)
  with tc show ?case by simp
qed

lemma run_append: "run x (cs @ ds) s = run x ds (run x cs s)"
  by (induction cs arbitrary: s) auto

text \<open>Reachable storage is what a run of transactions from the deployed contract gives.\<close>

lemma reachable_is_run: "reachable x s \<Longrightarrow> \<exists>cs. run x cs init_contract = s"
proof (induction rule: reachable.induct)
  case reachable_init
  have "run x [] init_contract = init_contract" by simp
  then show ?case by blast
next
  case (reachable_step s tx c s' evs)
  then obtain cs where "run x cs init_contract = s" by blast
  with reachable_step.hyps(2) have "run x (cs @ [(tx, c)]) init_contract = s'"
    by (simp add: run_append execute_Inr)
  then show ?case by blast
qed

lemma reachable_demo:
  "reachable demo_ext demo_requested"
  "reachable demo_ext demo_verified"
  "reachable demo_ext demo_stats_requested"
  "reachable demo_ext demo_second_requested"
  "reachable demo_ext demo_second_verified"
  unfolding demo_requested_def demo_verified_def demo_stats_requested_def
    demo_second_requested_def demo_second_verified_def
  by (intro reachable_run reachable_init)+

lemma checked_add_one_neq_zero: "checked_add a 1 = Inr c \<Longrightarrow> c \<noteq> 0"
proof
  assume a: "checked_add a 1 = Inr c" and z: "c = 0"
  from a have "unat c = unat a + 1"
    using checked_add_Inr_unat by fastforce
  with z show False by simp
qed

lemma verifyCommand_counter_Inr:
  assumes "verifyCommand_counter x src s1 = Inr s3"
  obtains before one incr where
    "counter_before x s1 src = Some before"
    "FHE_asEuint32 x 1 = Some one"
    "FHE_add x before one = Some incr"
    "s3 = s1\<lparr>encryptedEcuStats := (encryptedEcuStats s1)(src := incr),
             ecuList := (if FHE_isInitialized x (encryptedEcuStats s1 src) then ecuList s1
                         else ecuList s1 @ [src])\<rparr>"
  using assms
  by (auto simp: verifyCommand_counter_def counter_before_def
      split: if_splits option.splits sum.splits)

text \<open>What a successful \<^verbatim>\<open>verifyCommand\<close> has checked and written.\<close>

lemma verifyCommand_Inr_cases:
  assumes "verifyCommand x r c p s = Inr (s', evs)"
  obtains cmd src tgt before one incr where
    "requestToMessageId s r \<noteq> 0"
    "\<not> isVerified (decryptedMessages s (requestToMessageId s r))"
    "FHE_checkSignatures x r c p"
    "abi_decode_strings x c = Some (cmd, src, tgt)"
    "counter_before x s src = Some before"
    "FHE_asEuint32 x 1 = Some one"
    "FHE_add x before one = Some incr"
    "messageCount s' = messageCount s"
    "encryptedMessages s' = encryptedMessages s"
    "requestToMessageId s' = requestToMessageId s"
    "decryptedMessages s' = (decryptedMessages s)(requestToMessageId s r :=
        \<lparr>command = cmd, sourceEcu = src, targetEcu = tgt, isVerified = True\<rparr>)"
    "ecuList s' = (if FHE_isInitialized x (encryptedEcuStats s src) then ecuList s
                   else ecuList s @ [src])"
    "encryptedEcuStats s' = (encryptedEcuStats s)(src := incr)"
    "evs = [MessageVerified (requestToMessageId s r)]"
proof -
  let ?m = "requestToMessageId s r"
  from assms obtain cmd src tgt s3 where g: "?m \<noteq> 0" "\<not> isVerified (decryptedMessages s ?m)"
    "FHE_checkSignatures x r c p" "abi_decode_strings x c = Some (cmd, src, tgt)"
    and k: "verifyCommand_counter x src (s\<lparr>decryptedMessages := (decryptedMessages s)(?m :=
        \<lparr>command = cmd, sourceEcu = src, targetEcu = tgt, isVerified = True\<rparr>)\<rparr>) = Inr s3"
    and r: "s' = s3" "evs = [MessageVerified ?m]"
    by (auto simp: verifyCommand_def Let_def split: if_splits option.splits sum.splits)
  let ?s1 = "s\<lparr>decryptedMessages := (decryptedMessages s)(?m :=
        \<lparr>command = cmd, sourceEcu = src, targetEcu = tgt, isVerified = True\<rparr>)\<rparr>"
  from k obtain before one incr where b1: "counter_before x ?s1 src = Some before"
    and o: "FHE_asEuint32 x 1 = Some one" "FHE_add x before one = Some incr"
    and s3: "s3 = ?s1\<lparr>encryptedEcuStats := (encryptedEcuStats ?s1)(src := incr),
             ecuList := (if FHE_isInitialized x (encryptedEcuStats ?s1 src) then ecuList ?s1
                         else ecuList ?s1 @ [src])\<rparr>"
    by (rule verifyCommand_counter_Inr)
  from b1 have b: "counter_before x s src = Some before"
    by (simp add: counter_before_def split: if_splits)
  from g b o r s3 show ?thesis
    by (intro that [of cmd src tgt before one incr]) simp_all
qed

text \<open>The id 0 is never marked verified: \<^verbatim>\<open>verifyCommand\<close> refuses it.\<close>

lemma zero_never_verified:
  "reachable x s \<Longrightarrow> \<not> isVerified (decryptedMessages s 0)"
proof (induction rule: reachable.induct)
  case reachable_init
  show ?case by (simp add: init_contract_def zero_decrypted_def)
next
  case (reachable_step s tx c s' evs)
  show ?case
  proof (cases c)
    case (SubmitEncryptedCanMessage a b d)
    with reachable_step show ?thesis
      by (auto simp: submitEncryptedCanMessage_def split: sum.splits if_splits)
  next
    case (RequestCommandVerification m)
    with reachable_step show ?thesis
      by (auto simp: requestCommandVerification_def onlyAuthorized_def Let_def
        split: if_splits option.splits)
  next
    case (VerifyCommand r cl p)
    with reachable_step have "verifyCommand x r cl p s = Inr (s', evs)" by simp
    then show ?thesis
      using reachable_step.IH by (elim verifyCommand_Inr_cases) simp
  next
    case (RequestEcuStatsDecryption e)
    with reachable_step show ?thesis
      by (auto simp: requestEcuStatsDecryption_def Let_def split: if_splits option.splits)
  next
    case (DecryptEcuStats r cl p)
    with reachable_step show ?thesis
      by (auto simp: decryptEcuStats_def Let_def split: if_splits sum.splits option.splits)
  qed
qed

lemma demo_verified_step:
  "verifyCommand demo_ext 7 [1] [7] demo_requested = Inr (demo_verified, [MessageVerified 1])"
proof (cases "verifyCommand demo_ext 7 [1] [7] demo_requested")
  case (Inl e)
  then show ?thesis by (simp add: demo_defs)
next
  case (Inr r)
  obtain s' evs where r: "r = (s', evs)" by (cases r)
  with Inr have v: "verifyCommand demo_ext 7 [1] [7] demo_requested = Inr (s', evs)" by simp
  then have "demo_verified = s'"
    by (simp add: demo_verified_def execute_def)
  moreover from v have "evs = [MessageVerified 1]"
    by (elim verifyCommand_Inr_cases) (simp add: demo_requested_fields)
  ultimately show ?thesis using v by simp
qed

lemma demo_second_verified_step:
  "verifyCommand demo_ext 10 [2] [7] demo_second_requested
     = Inr (demo_second_verified, [MessageVerified 2])"
proof (cases "verifyCommand demo_ext 10 [2] [7] demo_second_requested")
  case (Inl e)
  then show ?thesis by (simp add: demo_defs)
next
  case (Inr r)
  obtain s' evs where r: "r = (s', evs)" by (cases r)
  with Inr have v: "verifyCommand demo_ext 10 [2] [7] demo_second_requested = Inr (s', evs)"
    by simp
  then have "demo_second_verified = s'"
    by (simp add: demo_second_verified_def execute_def)
  moreover have "requestToMessageId demo_second_requested 10 = 2"
    by (simp add: demo_defs)
  with v have "evs = [MessageVerified 2]"
    by (elim verifyCommand_Inr_cases) simp
  ultimately show ?thesis using v by simp
qed

lemma demo_second_requested_fields:
  "ecuList demo_second_requested = [''ECU_A'']"
  "encryptedEcuStats demo_second_requested ''ECU_A'' = 3"
  by (simp_all add: demo_defs)

text \<open>Only \<^verbatim>\<open>verifyCommand\<close> writes the registry, the counters and the decrypted fields.\<close>

lemma other_calls_frame:
  assumes "dispatch x tx c s = Inr (s', evs)" and "\<forall>r cl p. c \<noteq> VerifyCommand r cl p"
  shows "ecuList s' = ecuList s \<and> encryptedEcuStats s' = encryptedEcuStats s"
proof (cases c)
  case (SubmitEncryptedCanMessage a b d)
  with assms show ?thesis
    by (auto simp: submitEncryptedCanMessage_def split: sum.splits)
next
  case (RequestCommandVerification m)
  with assms show ?thesis
    by (auto simp: requestCommandVerification_def onlyAuthorized_def Let_def
        split: if_splits option.splits)
next
  case (VerifyCommand r cl p)
  with assms show ?thesis by simp
next
  case (RequestEcuStatsDecryption e)
  with assms show ?thesis
    by (auto simp: requestEcuStatsDecryption_def Let_def split: if_splits option.splits)
next
  case (DecryptEcuStats r cl p)
  with assms show ?thesis
    by (auto simp: decryptEcuStats_def Let_def split: if_splits sum.splits option.splits)
qed

lemma ecuList_invariant:
  assumes lib: "\<forall>a one h. FHE_asEuint32 x 1 = Some one \<and> FHE_add x a one = Some h
      \<longrightarrow> FHE_isInitialized x h"
  shows "reachable x s \<Longrightarrow>
    distinct (ecuList s) \<and> (\<forall>e \<in> set (ecuList s). FHE_isInitialized x (encryptedEcuStats s e))"
proof (induction rule: reachable.induct)
  case reachable_init
  show ?case by (simp add: init_contract_def)
next
  case (reachable_step s tx c s' evs)
  show ?case
  proof (cases "\<exists>r cl p. c = VerifyCommand r cl p")
    case False
    with reachable_step.hyps(2) have "ecuList s' = ecuList s \<and> encryptedEcuStats s' = encryptedEcuStats s"
      by (intro other_calls_frame) auto
    with reachable_step.IH show ?thesis by simp
  next
    case True
    then obtain r cl p where c: "c = VerifyCommand r cl p" by blast
    with reachable_step.hyps(2) have v: "verifyCommand x r cl p s = Inr (s', evs)" by simp
    from v obtain src before one h where
      l: "ecuList s' = (if FHE_isInitialized x (encryptedEcuStats s src) then ecuList s
                   else ecuList s @ [src])"
      and e: "encryptedEcuStats s' = (encryptedEcuStats s)(src := h)"
      and o: "FHE_asEuint32 x 1 = Some one" "FHE_add x before one = Some h"
      by (elim verifyCommand_Inr_cases) blast
    from o lib have h: "FHE_isInitialized x h" by blast
    from reachable_step.IH have d: "distinct (ecuList s)"
      and i: "\<And>n. n \<in> set (ecuList s) \<Longrightarrow> FHE_isInitialized x (encryptedEcuStats s n)"
      by simp_all
    show ?thesis
    proof (cases "FHE_isInitialized x (encryptedEcuStats s src)")
      case True
      with l e d i h show ?thesis by simp
    next
      case False
      with i have "src \<notin> set (ecuList s)" by blast
      with False l e d i h show ?thesis by simp
    qed
  qed
qed

subsection \<open>The largest counter value\<close>

lemma unat_max_uint256: "unat (- 1 :: uint256) = 2 ^ 256 - 1"
  by (simp add: unsigned_minus_1_eq_mask mask_eq_exp_minus_1)

lemma unat_lt_max_uint256: "a \<noteq> - 1 \<Longrightarrow> unat (a :: uint256) < 2 ^ 256 - 1"
proof -
  assume ne: "a \<noteq> - 1"
  have "unat a < 2 ^ 256"
    using unsigned_less [of a, where 'a = nat] by simp
  moreover have "unat a \<noteq> 2 ^ 256 - 1"
  proof
    assume "unat a = 2 ^ 256 - 1"
    then have "unat a = unat (- 1 :: uint256)"
      by (simp only: unat_max_uint256)
    then have "a = - 1"
      by (simp only: word_unat_eq_iff)
    with ne show False by simp
  qed
  ultimately show ?thesis by simp
qed

lemma checked_add_one:
  "checked_add a 1 = (if a = - 1 then Inl Panic_overflow else Inr (a + 1))"
proof (cases "a = - 1")
  case True
  then show ?thesis
    by (simp add: checked_add_def unat_max_uint256)
next
  case False
  then have "unat a < 2 ^ 256 - 1"
    by (rule unat_lt_max_uint256)
  then have "unat a + unat (1 :: uint256) < 2 ^ 256"
    by simp
  with False show ?thesis
    by (simp add: checked_add_def)
qed

lemma unat_Suc_uint256: "a \<noteq> - 1 \<Longrightarrow> unat (a + 1 :: uint256) = unat a + 1"
  using checked_add_Inr_unat [of a 1 "a + 1"] by (simp add: checked_add_one)

text \<open>The storage with the full counter is reachable: by \<open>2 ^ 256 - 1\<close> submissions.\<close>

lemma unat_of_nat_uint256: "n < 2 ^ 256 \<Longrightarrow> unat (of_nat n :: uint256) = n"
  by (rule of_nat_inverse) simp_all

lemma submitted_state_0: "submitted_state 0 = init_contract"
proof -
  have "(\<lambda>i :: uint256. if unat i \<le> 0 then zero_encrypted\<lparr>msg_id := i\<rparr>
                              else zero_encrypted) = (\<lambda>_. zero_encrypted)"
    by (rule ext) (auto simp: unat_eq_0 zero_encrypted_def)
  then show ?thesis
    by (simp add: submitted_state_def init_contract_def)
qed

lemma submitted_state_Suc:
  assumes "Suc n < 2 ^ 256"
  shows "submitEncryptedCanMessage zero_tx 0 0 0 (submitted_state n)
         = Inr (submitted_state (Suc n), [MessageReceived (of_nat (Suc n)) 0])"
proof -
  let ?k = "of_nat n + 1 :: uint256"
  from assms have un: "unat (of_nat n :: uint256) = n"
    by (simp add: unat_of_nat_uint256)
  have ne: "(of_nat n :: uint256) \<noteq> - 1"
  proof
    assume "(of_nat n :: uint256) = - 1"
    then have "unat (of_nat n :: uint256) = 2 ^ 256 - 1"
      by (simp only: unat_max_uint256)
    with un assms show False by simp
  qed
  from ne un have uk: "unat ?k = Suc n"
    by (simp add: unat_Suc_uint256)
  have k0: "?k \<noteq> 0"
  proof
    assume "?k = 0"
    then have "unat ?k = 0" by simp
    with uk show False by simp
  qed
  have enc: "(\<lambda>i. if unat i \<le> n then zero_encrypted\<lparr>msg_id := i\<rparr> else zero_encrypted)
       (?k := \<lparr>msg_id = ?k, encryptedCommand = 0, encryptedSourceEcu = 0,
               encryptedTargetEcu = 0, timestamp = 0\<rparr>)
     = (\<lambda>i. if unat i \<le> Suc n then zero_encrypted\<lparr>msg_id := i\<rparr> else zero_encrypted)"
  proof (rule ext)
    fix i :: uint256
    show "((\<lambda>i. if unat i \<le> n then zero_encrypted\<lparr>msg_id := i\<rparr> else zero_encrypted)
       (?k := \<lparr>msg_id = ?k, encryptedCommand = 0, encryptedSourceEcu = 0,
               encryptedTargetEcu = 0, timestamp = 0\<rparr>)) i
     = (if unat i \<le> Suc n then zero_encrypted\<lparr>msg_id := i\<rparr> else zero_encrypted)"
    proof (cases "i = ?k")
      case True
      with uk show ?thesis
        by (simp add: zero_encrypted_def)
    next
      case False
      then have "unat i \<noteq> Suc n"
        using uk by (metis word_unat_eq_iff)
      then have "unat i \<le> Suc n \<longleftrightarrow> unat i \<le> n"
        by arith
      with False show ?thesis
        by simp
    qed
  qed
  have dec: "(\<lambda>_. zero_decrypted)(?k := \<lparr>command = [], sourceEcu = [], targetEcu = [],
       isVerified = False\<rparr>) = (\<lambda>_ :: uint256. zero_decrypted)"
    by (rule ext) (simp add: zero_decrypted_def)
  show ?thesis
    using ne enc dec
    by (simp add: submitEncryptedCanMessage_def checked_add_one submitted_state_def zero_tx_def)
qed

lemma reachable_submitted_state: "n < 2 ^ 256 \<Longrightarrow> reachable x (submitted_state n)"
proof (induction n)
  case 0
  show ?case
    by (simp add: submitted_state_0 reachable_init)
next
  case (Suc n)
  then have "reachable x (submitted_state n)"
    by simp
  moreover have "dispatch x zero_tx (SubmitEncryptedCanMessage 0 0 0) (submitted_state n)
      = Inr (submitted_state (Suc n), [MessageReceived (of_nat (Suc n)) 0])"
    using Suc.prems by (simp add: submitted_state_Suc)
  ultimately show ?case
    by (rule reachable_step)
qed

lemma demo_full_submitted: "demo_full = submitted_state (2 ^ 256 - 1)"
proof -
  have m: "(of_nat (2 ^ 256 - 1) :: uint256) = - 1"
    by (simp only: word_unat_eq_iff unat_max_uint256) (rule unat_of_nat_uint256, simp)
  have "unat i \<le> 2 ^ 256 - 1" for i :: uint256
  proof -
    have "unat i < 2 ^ 256"
      using unsigned_less [of i, where 'a = nat] by simp
    then show ?thesis by simp
  qed
  then show ?thesis
    using m by (simp add: demo_full_def submitted_state_def)
qed

lemma reachable_demo_full: "reachable x demo_full"
  by (simp add: demo_full_submitted reachable_submitted_state)

subsection \<open>The life of the verified flag\<close>

lemma submit_Inr:
  assumes "submitEncryptedCanMessage tx a b d s = Inr (s', evs)"
  shows "messageCount s \<noteq> - 1" and "messageCount s' = messageCount s + 1"
    and "decryptedMessages s' = (decryptedMessages s)(messageCount s + 1 := zero_decrypted)"
  using assms
  by (auto simp: submitEncryptedCanMessage_def checked_add_one zero_decrypted_def
      split: if_splits)

lemma quiet_calls_frame:
  assumes "dispatch x tx c s = Inr (s', evs)"
    and "\<forall>r cl p. c \<noteq> VerifyCommand r cl p"
    and "\<forall>a b d. c \<noteq> SubmitEncryptedCanMessage a b d"
  shows "messageCount s' = messageCount s \<and> decryptedMessages s' = decryptedMessages s"
proof (cases c)
  case (SubmitEncryptedCanMessage a b d)
  with assms show ?thesis by simp
next
  case (RequestCommandVerification m)
  with assms show ?thesis
    by (auto simp: requestCommandVerification_def onlyAuthorized_def Let_def
        split: if_splits option.splits)
next
  case (VerifyCommand r cl p)
  with assms show ?thesis by simp
next
  case (RequestEcuStatsDecryption e)
  with assms show ?thesis
    by (auto simp: requestEcuStatsDecryption_def Let_def split: if_splits option.splits)
next
  case (DecryptEcuStats r cl p)
  with assms show ?thesis
    by (auto simp: decryptEcuStats_def Let_def split: if_splits sum.splits option.splits)
qed

lemma le_counter_neq_next:
  fixes m k :: uint256
  assumes "m \<le> k" and "k \<noteq> - 1"
  shows "m \<noteq> k + 1" and "m \<le> k + 1"
proof -
  from assms(2) have "unat (k + 1) = unat k + 1"
    by (rule unat_Suc_uint256)
  moreover from assms(1) have "unat m \<le> unat k"
    by (simp add: word_le_nat_alt)
  ultimately have "unat m < unat (k + 1)" by simp
  then show "m \<noteq> k + 1" by auto
  from \<open>unat m < unat (k + 1)\<close> show "m \<le> k + 1"
    by (simp add: word_le_nat_alt)
qed

text \<open>One committed call: the counter does not decrease, a submitted id keeps its flag.\<close>

lemma step_keeps_verified:
  assumes "dispatch x tx c s = Inr (s', evs)" and "m \<le> messageCount s"
  shows "m \<le> messageCount s'"
    and "isVerified (decryptedMessages s m) \<Longrightarrow> isVerified (decryptedMessages s' m)"
proof -
  have "m \<le> messageCount s' \<and>
     (isVerified (decryptedMessages s m) \<longrightarrow> isVerified (decryptedMessages s' m))"
  proof (cases c)
    case (SubmitEncryptedCanMessage a b d)
    with assms(1) have sub: "submitEncryptedCanMessage tx a b d s = Inr (s', evs)" by simp
    note f = submit_Inr [OF sub]
    from assms(2) f(1) have "m \<noteq> messageCount s + 1" and "m \<le> messageCount s + 1"
      by (rule le_counter_neq_next)+
    with f show ?thesis by simp
  next
    case (VerifyCommand r cl p)
    with assms(1) have "verifyCommand x r cl p s = Inr (s', evs)" by simp
    then show ?thesis
      using assms(2) by (elim verifyCommand_Inr_cases) simp
  next
    case (RequestCommandVerification k)
    with assms show ?thesis
      using quiet_calls_frame [of x tx c s s' evs] by simp
  next
    case (RequestEcuStatsDecryption e)
    with assms show ?thesis
      using quiet_calls_frame [of x tx c s s' evs] by simp
  next
    case (DecryptEcuStats r cl p)
    with assms show ?thesis
      using quiet_calls_frame [of x tx c s s' evs] by simp
  qed
  then show "m \<le> messageCount s'"
    and "isVerified (decryptedMessages s m) \<Longrightarrow> isVerified (decryptedMessages s' m)"
    by simp_all
qed

lemma execute_keeps_verified:
  assumes "m \<le> messageCount s"
  shows "m \<le> messageCount (fst (execute x tx c s))"
    and "isVerified (decryptedMessages s m)
         \<Longrightarrow> isVerified (decryptedMessages (fst (execute x tx c s)) m)"
proof -
  have "m \<le> messageCount (fst (execute x tx c s)) \<and>
     (isVerified (decryptedMessages s m)
         \<longrightarrow> isVerified (decryptedMessages (fst (execute x tx c s)) m))"
  proof (cases "dispatch x tx c s")
    case (Inl e)
    with assms show ?thesis by (simp add: execute_Inl)
  next
    case (Inr r)
    obtain s' evs where "r = (s', evs)" by (cases r)
    with Inr have d: "dispatch x tx c s = Inr (s', evs)" by simp
    from step_keeps_verified [OF d assms] d show ?thesis
      by (simp add: execute_Inr)
  qed
  then show "m \<le> messageCount (fst (execute x tx c s))"
    and "isVerified (decryptedMessages s m)
         \<Longrightarrow> isVerified (decryptedMessages (fst (execute x tx c s)) m)"
    by simp_all
qed

lemma run_keeps_verified:
  "m \<le> messageCount s \<Longrightarrow> isVerified (decryptedMessages s m)
   \<Longrightarrow> isVerified (decryptedMessages (run x cs s) m)"
proof (induction cs arbitrary: s)
  case Nil
  then show ?case by simp
next
  case (Cons tc cs)
  obtain tx c where tc: "tc = (tx, c)" by (cases tc)
  from Cons.prems have "m \<le> messageCount (fst (execute x tx c s))"
    and "isVerified (decryptedMessages (fst (execute x tx c s)) m)"
    by (simp_all add: execute_keeps_verified)
  then have "isVerified (decryptedMessages (run x cs (fst (execute x tx c s))) m)"
    by (rule Cons.IH)
  with tc show ?case by simp
qed

text \<open>The ids of a run's successful callbacks, one call at a time.\<close>

lemma verified_ids_Cons:
  "verified_ids x ((tx, c) # cs) s =
     (case c of
        VerifyCommand r cl p \<Rightarrow>
          if isl (verifyCommand x r cl p s) then [] else [requestToMessageId s r]
      | _ \<Rightarrow> [])
     @ verified_ids x cs (fst (execute x tx c s))"
  by (cases c) simp_all

lemma verified_never_again:
  "m \<le> messageCount s \<Longrightarrow> isVerified (decryptedMessages s m)
   \<Longrightarrow> m \<notin> set (verified_ids x cs s)"
proof (induction cs arbitrary: s)
  case Nil
  then show ?case by simp
next
  case (Cons tc cs)
  obtain tx c where tc: "tc = (tx, c)" by (cases tc)
  from Cons.prems have "m \<le> messageCount (fst (execute x tx c s))"
    and "isVerified (decryptedMessages (fst (execute x tx c s)) m)"
    by (simp_all add: execute_keeps_verified)
  then have rest: "m \<notin> set (verified_ids x cs (fst (execute x tx c s)))"
    by (rule Cons.IH)
  have "m \<noteq> requestToMessageId s r" if "\<not> isl (verifyCommand x r cl p s)" for r cl p
  proof -
    from that obtain s' evs where "verifyCommand x r cl p s = Inr (s', evs)"
      by (cases "verifyCommand x r cl p s") auto
    then have "\<not> isVerified (decryptedMessages s (requestToMessageId s r))"
      by (elim verifyCommand_Inr_cases)
    with Cons.prems(2) show ?thesis by auto
  qed
  with rest tc show ?case
    by (auto simp: verified_ids_Cons split: call.splits)
qed

lemma verified_at_most_once:
  "m \<le> messageCount s \<Longrightarrow> count_list (verified_ids x cs s) m \<le> 1"
proof (induction cs arbitrary: s)
  case Nil
  then show ?case by simp
next
  case (Cons tc cs)
  obtain tx c where tc: "tc = (tx, c)" by (cases tc)
  let ?s' = "fst (execute x tx c s)"
  from Cons.prems have le: "m \<le> messageCount ?s'"
    by (rule execute_keeps_verified)
  then have ih: "count_list (verified_ids x cs ?s') m \<le> 1"
    by (rule Cons.IH)
  show ?case
  proof (cases "\<exists>r cl p. c = VerifyCommand r cl p \<and> \<not> isl (verifyCommand x r cl p s)
      \<and> requestToMessageId s r = m")
    case True
    then obtain r cl p where c: "c = VerifyCommand r cl p"
      and ok: "\<not> isl (verifyCommand x r cl p s)" and m: "requestToMessageId s r = m"
      by blast
    from ok obtain s' evs where v: "verifyCommand x r cl p s = Inr (s', evs)"
      by (cases "verifyCommand x r cl p s") auto
    with c have s': "?s' = s'" by (simp add: execute_def)
    from v m have "isVerified (decryptedMessages s' m)"
      by (elim verifyCommand_Inr_cases) simp
    with le s' have "m \<notin> set (verified_ids x cs ?s')"
      by (simp add: verified_never_again)
    then have "count_list (verified_ids x cs ?s') m = 0"
      by (simp add: count_list_0_iff)
    with tc c ok m show ?thesis by simp
  next
    case False
    then have "count_list (verified_ids x ((tx, c) # cs) s) m
        = count_list (verified_ids x cs ?s') m"
      by (auto simp: verified_ids_Cons split: call.splits)
    with ih tc show ?thesis by simp
  qed
qed



lemma reset_only_by_submit:
  assumes "dispatch x tx c s = Inr (s', evs)"
    and "isVerified (decryptedMessages s m)" and "\<not> isVerified (decryptedMessages s' m)"
  shows "(\<exists>a b d. c = SubmitEncryptedCanMessage a b d) \<and> m = messageCount s + 1"
proof (cases c)
  case (SubmitEncryptedCanMessage a b d)
  with assms(1) have "submitEncryptedCanMessage tx a b d s = Inr (s', evs)" by simp
  from submit_Inr(3) [OF this] assms(2,3) have "m = messageCount s + 1"
    by (auto split: if_splits)
  with SubmitEncryptedCanMessage show ?thesis by simp
next
  case (VerifyCommand r cl p)
  with assms(1) have "verifyCommand x r cl p s = Inr (s', evs)" by simp
  then show ?thesis
    using assms(2,3) by (elim verifyCommand_Inr_cases) (auto split: if_splits)
next
  case (RequestCommandVerification k)
  with assms show ?thesis
    using quiet_calls_frame [of x tx c s s' evs] by simp
next
  case (RequestEcuStatsDecryption n)
  with assms show ?thesis
    using quiet_calls_frame [of x tx c s s' evs] by simp
next
  case (DecryptEcuStats r cl p)
  with assms show ?thesis
    using quiet_calls_frame [of x tx c s s' evs] by simp
qed

subsection \<open>A library that serves submitted messages only\<close>







lemma stats_request_ids_single:
  "dispatch x tx c s = Inl e \<Longrightarrow> stats_request_ids x [(tx, c)] s = []"
  by (cases c) simp_all




subsection \<open>The concrete run\<close>







lemma demo_requested_handles:
  "encryptedMessages demo_requested 1 = \<lparr>msg_id = 1, encryptedCommand = 11,
     encryptedSourceEcu = 12, encryptedTargetEcu = 13, timestamp = 1000\<rparr>"
  "encryptedMessages demo_requested 5 = zero_encrypted"
  "decryptedMessages demo_requested 5 = zero_decrypted"
  "encryptedMessages demo_verified 5 = zero_encrypted"
  "decryptedMessages demo_verified 5 = zero_decrypted"
  by (simp_all add: demo_defs)

lemma demo_second_requested_more:
  "requestToMessageId demo_second_requested 10 = 2"
  "decryptedMessages demo_second_requested 2 = zero_decrypted"
  by (simp_all add: demo_defs)

subsection \<open>The loop of the trust score\<close>

lemma trust_hits_empty: "hi \<le> lo \<Longrightarrow> trust_hits x s ecuId lo hi = 0"
  by (simp add: trust_hits_def)

lemma trust_hits_step:
  "lo < hi \<Longrightarrow> trust_hits x s ecuId lo hi
     = (if trust_hit x s ecuId (of_nat lo) then 1 else 0) + trust_hits x s ecuId (Suc lo) hi"
  by (simp add: trust_hits_def upt_conv_Cons)

lemma trust_hits_le: "trust_hits x s ecuId lo hi \<le> hi - lo"
  using length_filter_le [of "\<lambda>j. trust_hit x s ecuId (of_nat j)" "[lo ..< hi]"]
  by (simp add: trust_hits_def)

lemma checked_add_one_ok:
  "unat a + 1 < 2 ^ 256 \<Longrightarrow> checked_add a 1 = Inr (a + 1) \<and> unat (a + 1) = unat a + 1"
proof -
  assume "unat a + 1 < 2 ^ 256"
  then have "a \<noteq> - 1"
    by (auto simp: unat_max_uint256)
  then show ?thesis
    by (simp add: checked_add_one unat_Suc_uint256)
qed

lemma calculateEcuTrustScore_body_value:
  assumes "unat t + 1 < 2 ^ 256" and "unat v + 1 < 2 ^ 256"
  shows "calculateEcuTrustScore_body x s ecuId i v t =
     Inr (if trust_hit x s ecuId i then (v + 1, t + 1) else (v, t))"
  using checked_add_one_ok [OF assms(1)] checked_add_one_ok [OF assms(2)]
  by (simp add: calculateEcuTrustScore_body_def trust_hit_def validateCommand_def Let_def)

lemma calculateEcuTrustScore_loop_value:
  assumes "messageCount s \<noteq> - 1"
  shows "unat i \<le> Suc (unat (messageCount s))
    \<Longrightarrow> unat t + (Suc (unat (messageCount s)) - unat i) < 2 ^ 256
    \<Longrightarrow> unat v + (Suc (unat (messageCount s)) - unat i) < 2 ^ 256
    \<Longrightarrow> calculateEcuTrustScore_loop x s ecuId i v t =
        Inr (v + of_nat (trust_hits x s ecuId (unat i) (Suc (unat (messageCount s)))),
             t + of_nat (trust_hits x s ecuId (unat i) (Suc (unat (messageCount s)))))"
proof (induction "Suc (unat (messageCount s)) - unat i" arbitrary: i v t)
  case 0
  then have "unat i = Suc (unat (messageCount s))" by simp
  then have "\<not> i \<le> messageCount s"
    by (simp add: word_le_nat_alt)
  moreover have "trust_hits x s ecuId (unat i) (Suc (unat (messageCount s))) = 0"
    using \<open>unat i = Suc (unat (messageCount s))\<close> by (simp add: trust_hits_empty)
  ultimately show ?case
    by (simp add: calculateEcuTrustScore_loop.simps)
next
  case (Suc n)
  let ?hi = "Suc (unat (messageCount s))"
  from Suc.hyps(2) have lt: "unat i < ?hi" by simp
  then have le: "i \<le> messageCount s"
    by (simp add: word_le_nat_alt)
  have "unat (messageCount s) < 2 ^ 256 - 1"
    using assms by (rule unat_lt_max_uint256)
  with lt have "unat i + 1 < 2 ^ 256" by simp
  then have next_i: "checked_add i 1 = Inr (i + 1)" and u: "unat (i + 1) = Suc (unat i)"
    using checked_add_one_ok [of i] by simp_all
  from Suc.prems(2) lt have t1: "unat t + 1 < 2 ^ 256" by simp
  from Suc.prems(3) lt have v1: "unat v + 1 < 2 ^ 256" by simp
  note body = calculateEcuTrustScore_body_value [OF t1 v1, of x s ecuId i]
  have ii: "of_nat (unat i) = i" by simp
  show ?case
  proof (cases "trust_hit x s ecuId i")
    case True
    have ut: "unat (t + 1) = unat t + 1" using checked_add_one_ok [OF t1] by simp
    have uv: "unat (v + 1) = unat v + 1" using checked_add_one_ok [OF v1] by simp
    have "calculateEcuTrustScore_loop x s ecuId (i + 1) (v + 1) (t + 1) =
        Inr (v + 1 + of_nat (trust_hits x s ecuId (unat (i + 1)) ?hi),
             t + 1 + of_nat (trust_hits x s ecuId (unat (i + 1)) ?hi))"
    proof (rule Suc.hyps(1))
      show "n = ?hi - unat (i + 1)" using Suc.hyps(2) u by simp
      show "unat (i + 1) \<le> ?hi" using lt u by simp
      show "unat (t + 1) + (?hi - unat (i + 1)) < 2 ^ 256" using Suc.prems(2) lt u ut by simp
      show "unat (v + 1) + (?hi - unat (i + 1)) < 2 ^ 256" using Suc.prems(3) lt u uv by simp
    qed
    with True le body next_i u lt ii show ?thesis
      by (subst calculateEcuTrustScore_loop.simps) (simp add: trust_hits_step)
  next
    case False
    have "calculateEcuTrustScore_loop x s ecuId (i + 1) v t =
        Inr (v + of_nat (trust_hits x s ecuId (unat (i + 1)) ?hi),
             t + of_nat (trust_hits x s ecuId (unat (i + 1)) ?hi))"
    proof (rule Suc.hyps(1))
      show "n = ?hi - unat (i + 1)" using Suc.hyps(2) u by simp
      show "unat (i + 1) \<le> ?hi" using lt u by simp
      show "unat t + (?hi - unat (i + 1)) < 2 ^ 256" using Suc.prems(2) lt u by simp
      show "unat v + (?hi - unat (i + 1)) < 2 ^ 256" using Suc.prems(3) lt u by simp
    qed
    with False le body next_i u lt ii show ?thesis
      by (subst calculateEcuTrustScore_loop.simps) (simp add: trust_hits_step)
  qed
qed

lemma checked_add_Inl: "checked_add a b = Inl e \<Longrightarrow> e = Panic_overflow"
  by (auto simp: checked_add_def split: if_splits)

lemma calculateEcuTrustScore_body_Inl: "calculateEcuTrustScore_body x s ecuId i v t = Inl e \<Longrightarrow> e = Panic_overflow"
  by (auto simp: calculateEcuTrustScore_body_def Let_def dest: checked_add_Inl split: if_splits sum.splits)

text \<open>With the counter full the loop cannot end: the increment of \<open>i\<close> panics at the latest.\<close>

lemma calculateEcuTrustScore_loop_full:
  assumes "messageCount s = - 1"
  shows "calculateEcuTrustScore_loop x s ecuId i v t = Inl Panic_overflow"
proof (induction "2 ^ 256 - unat i" arbitrary: i v t rule: less_induct)
  case less
  have le: "i \<le> messageCount s"
    using assms by simp
  show ?case
  proof (cases "calculateEcuTrustScore_body x s ecuId i v t")
    case (Inl e)
    with le show ?thesis
      by (subst calculateEcuTrustScore_loop.simps) (simp add: calculateEcuTrustScore_body_Inl)
  next
    case (Inr vt)
    obtain v' t' where vt: "vt = (v', t')" by (cases vt)
    show ?thesis
    proof (cases "i = - 1")
      case True
      with Inr vt le show ?thesis
        by (subst calculateEcuTrustScore_loop.simps) (simp add: checked_add_one)
    next
      case False
      then have u: "unat (i + 1) = unat i + 1"
        by (rule unat_Suc_uint256)
      from False have "unat i < 2 ^ 256 - 1"
        by (rule unat_lt_max_uint256)
      with u have "2 ^ 256 - unat (i + 1) < 2 ^ 256 - unat i"
        by simp
      then have "calculateEcuTrustScore_loop x s ecuId (i + 1) v' t' = Inl Panic_overflow"
        by (rule less.hyps)
      with False Inr vt le show ?thesis
        by (subst calculateEcuTrustScore_loop.simps) (simp add: checked_add_one)
    qed
  qed
qed

lemma verified_from_hits:
  assumes "\<forall>i \<in> set (message_ids s).
      isVerified (decryptedMessages s i)
      \<and> keccak256 x (abi_encodePacked (sourceEcu (decryptedMessages s i)))
          = keccak256 x (abi_encodePacked ecuId)
      \<longrightarrow> sourceEcu (decryptedMessages s i) = ecuId"
  shows "length (verified_from s ecuId) = trust_hits x s ecuId 1 (Suc (unat (messageCount s)))"
proof -
  let ?js = "[1 ..< Suc (unat (messageCount s))]"
  have "filter ((\<lambda>i. isVerified (decryptedMessages s i)
                    \<and> sourceEcu (decryptedMessages s i) = ecuId) \<circ> of_nat) ?js
      = filter (\<lambda>j. trust_hit x s ecuId (of_nat j)) ?js"
  proof (rule filter_cong [OF refl])
    fix j assume "j \<in> set ?js"
    then have "of_nat j \<in> set (message_ids s)"
      by (simp only: message_ids_def set_map) (rule imageI)
    with assms show "((\<lambda>i. isVerified (decryptedMessages s i)
                    \<and> sourceEcu (decryptedMessages s i) = ecuId) \<circ> of_nat) j
        = trust_hit x s ecuId (of_nat j)"
      by (auto simp: trust_hit_def)
  qed
  then show ?thesis
    by (simp add: verified_from_def message_ids_def trust_hits_def filter_map)
qed

lemma passing_all: "passing s ecuId = verified_from s ecuId"
  by (simp add: passing_def validateCommand_def)

lemma trust_score_by_hits:
  assumes "messageCount s \<noteq> - 1"
    and "trust_hits x s ecuId 1 (Suc (unat (messageCount s))) * 100 < 2 ^ 256"
  shows "calculateEcuTrustScore x s ecuId = Inr 100"
proof -
  let ?h = "trust_hits x s ecuId 1 (Suc (unat (messageCount s)))"
  have mc: "unat (messageCount s) < 2 ^ 256 - 1"
    using assms(1) by (rule unat_lt_max_uint256)
  have "calculateEcuTrustScore_loop x s ecuId 1 0 0 =
      Inr (0 + of_nat (trust_hits x s ecuId (unat (1 :: uint256)) (Suc (unat (messageCount s)))),
           0 + of_nat (trust_hits x s ecuId (unat (1 :: uint256)) (Suc (unat (messageCount s)))))"
    using assms(1) mc by (intro calculateEcuTrustScore_loop_value) simp_all
  then have loop: "calculateEcuTrustScore_loop x s ecuId 1 0 0 = Inr (of_nat ?h, of_nat ?h)"
    by simp
  have "?h \<le> unat (messageCount s)"
    using trust_hits_le [of x s ecuId 1 "Suc (unat (messageCount s))"] by simp
  with mc have hb: "?h < 2 ^ 256" by simp
  then have uh: "unat (of_nat ?h :: uint256) = ?h"
    by (rule unat_of_nat_uint256)
  show ?thesis
  proof (cases "?h = 0")
    case True
    with loop show ?thesis
      by (simp add: calculateEcuTrustScore_def)
  next
    case False
    with uh have pos: "(of_nat ?h :: uint256) > 0"
      by (simp add: word_less_nat_alt)
    from assms(2) uh have mul: "checked_mul (of_nat ?h) 100 = Inr (of_nat ?h * 100)"
      by (simp add: checked_mul_def)
    have "unat (of_nat ?h * 100 :: uint256) = ?h * 100"
      using assms(2) unat_of_nat_uint256 [of "?h * 100"] by simp
    then have "unat ((of_nat ?h * 100) div (of_nat ?h) :: uint256) = 100"
      using uh False by (simp add: unat_div)
    then have "(of_nat ?h * 100) div (of_nat ?h) = (100 :: uint256)"
      by (simp add: word_unat_eq_iff)
    with loop pos mul show ?thesis
      by (simp add: calculateEcuTrustScore_def)
  qed
qed

lemma demo_second_message_ids: "message_ids demo_second_verified = [1, 2]"
  by (simp add: message_ids_def demo_second_verified_fields upt_rec)

lemma demo_second_decrypted_1:
  "decryptedMessages demo_second_verified 1 = \<lparr>command = ''SET_TORQUE'', sourceEcu = ''ECU_A'',
     targetEcu = ''ECU_B'', isVerified = True\<rparr>"
  by (simp add: demo_defs)

section \<open>C1: a verified message cannot be verified again\<close>

text \<open>
  Claim C1. For every message id whose decrypted record has \<open>isVerified = True\<close>, a call
  of \<^verbatim>\<open>verifyCommand\<close> with a request id that maps to that message id reverts with the
  reason "Already verified", and the transaction leaves the storage as it was. The id 0
  is never verified in reachable storage; outside reachable storage the id is taken to
  be non-zero.
\<close>

theorem verifyCommand_twice_reverts:
  assumes "reachable x s \<or> m \<noteq> 0"
    and "isVerified (decryptedMessages s m)"
    and "requestToMessageId s r = m"
  shows "verifyCommand x r c p s = Inl (Revert ''Already verified'')
       \<and> execute x tx (VerifyCommand r c p) s = (s, Inl (Revert ''Already verified''))"
proof -
  from assms have "m \<noteq> 0"
    using zero_never_verified by blast
  with assms have "verifyCommand x r c p s = Inl (Revert ''Already verified'')"
    by (simp add: verifyCommand_def)
  then show ?thesis
    by (simp add: execute_def)
qed

theorem verifyCommand_twice_reverts_witness:
  "reachable demo_ext demo_verified
   \<and> isVerified (decryptedMessages demo_verified 1)
   \<and> requestToMessageId demo_verified 7 = 1
   \<and> verifyCommand demo_ext 7 [1] [7] demo_verified = Inl (Revert ''Already verified'')
   \<and> execute demo_ext (demo_tx 0) (VerifyCommand 7 [1] [7]) demo_verified
       = (demo_verified, Inl (Revert ''Already verified''))"
  using verifyCommand_twice_reverts [of demo_ext demo_verified 1 7 "[1]" "[7]" "demo_tx 0"]
  by (simp add: demo_verified_fields reachable_demo)

section \<open>C2: a second request id for a verified message\<close>

text \<open>
  Claim C2, as amended. When the callback through one request id has succeeded for a
  message id, a \<^verbatim>\<open>verifyCommand\<close> callback through a second request id that maps to
  the same message id is rejected: it reverts with the reason "Already verified" and
  the storage stays as it was. This holds directly after the first callback, and after
  any further transactions when the message id had been submitted (it is at most
  \<open>messageCount\<close>). The guard reads the flag of the message, not the request id.
\<close>

theorem second_request_id_rejected:
  assumes "verifyCommand x r1 c1 p1 s = Inr (s1, evs)"
    and "cs = [] \<or> requestToMessageId s r1 \<le> messageCount s"
    and "requestToMessageId (run x cs s1) r2 = requestToMessageId s r1"
  shows "verifyCommand x r2 c2 p2 (run x cs s1) = Inl (Revert ''Already verified'')
       \<and> execute x tx (VerifyCommand r2 c2 p2) (run x cs s1)
           = (run x cs s1, Inl (Revert ''Already verified''))"
proof -
  let ?m = "requestToMessageId s r1"
  from assms(1) have m: "?m \<noteq> 0" and v: "isVerified (decryptedMessages s1 ?m)"
    and c: "messageCount s1 = messageCount s"
    by (elim verifyCommand_Inr_cases, simp)+
  have "isVerified (decryptedMessages (run x cs s1) ?m)"
  proof (cases "cs = []")
    case True
    with v show ?thesis by simp
  next
    case False
    with assms(2) c have "?m \<le> messageCount s1" by simp
    then show ?thesis using v by (rule run_keeps_verified)
  qed
  with m assms(3) have "verifyCommand x r2 c2 p2 (run x cs s1) = Inl (Revert ''Already verified'')"
    by (simp add: verifyCommand_def)
  then show ?thesis
    by (simp add: execute_def)
qed

theorem second_request_id_rejected_witness:
  "verifyCommand demo_ext 7 [1] [7] demo_requested = Inr (demo_verified, [MessageVerified 1])
   \<and> requestToMessageId demo_requested 7 \<le> messageCount demo_requested
   \<and> run demo_ext [(demo_tx 9, RequestEcuStatsDecryption ''ECU_A'')] demo_verified
       = demo_stats_requested
   \<and> requestToMessageId demo_stats_requested 8 = requestToMessageId demo_requested 7
   \<and> verifyCommand demo_ext 8 [1] [7] demo_verified = Inl (Revert ''Already verified'')
   \<and> verifyCommand demo_ext 8 [1] [7] demo_stats_requested = Inl (Revert ''Already verified'')"
  using second_request_id_rejected [where x = demo_ext and ?r1.0 = 7 and ?c1.0 = "[1]"
      and ?p1.0 = "[7]" and s = demo_requested and ?s1.0 = demo_verified
      and evs = "[MessageVerified 1]" and cs = "[]" and ?r2.0 = 8 and ?c2.0 = "[1]"
      and ?p2.0 = "[7]" and tx = "demo_tx 0"]
    second_request_id_rejected [where x = demo_ext and ?r1.0 = 7 and ?c1.0 = "[1]"
      and ?p1.0 = "[7]" and s = demo_requested and ?s1.0 = demo_verified
      and evs = "[MessageVerified 1]"
      and cs = "[(demo_tx 9, RequestEcuStatsDecryption ''ECU_A'')]"
      and ?r2.0 = 8 and ?c2.0 = "[1]" and ?p2.0 = "[7]" and tx = "demo_tx 0"]
    demo_stats_requested_def [symmetric]
  by (simp add: demo_requested_fields demo_verified_fields demo_verified_step
        demo_stats_requested_fields)

text \<open>
  As stated (the callback through the fresh request id is not rejected) the claim
  fails. One message is submitted, its verification is requested twice, and the
  callback through the request id 7 verifies it; both request ids 7 and 8 map to the
  message 1, the proof and the payload of the callback through 8 are good, and it
  reverts.
\<close>

theorem duplicate_request_id_is_caught:
  "run demo_ext
     [(demo_tx 0, SubmitEncryptedCanMessage 11 12 13),
      (demo_tx 7, RequestCommandVerification 1),
      (demo_tx 8, RequestCommandVerification 1),
      (demo_tx 0, VerifyCommand 7 [1] [7])] init_contract = demo_verified
   \<and> requestToMessageId demo_verified 7 = 1
   \<and> requestToMessageId demo_verified 8 = 1
   \<and> isVerified (decryptedMessages demo_verified 1)
   \<and> FHE_checkSignatures demo_ext 8 [1] [7]
   \<and> abi_decode_strings demo_ext [1] = Some (''SET_TORQUE'', ''ECU_A'', ''ECU_B'')
   \<and> verifyCommand demo_ext 8 [1] [7] demo_verified = Inl (Revert ''Already verified'')"
proof -
  have "run demo_ext
     [(demo_tx 0, SubmitEncryptedCanMessage 11 12 13),
      (demo_tx 7, RequestCommandVerification 1),
      (demo_tx 8, RequestCommandVerification 1),
      (demo_tx 0, VerifyCommand 7 [1] [7])] init_contract = demo_verified"
    by (simp add: demo_verified_def demo_requested_def)
  moreover have "verifyCommand demo_ext 8 [1] [7] demo_verified
      = Inl (Revert ''Already verified'')"
    by (simp add: demo_verified_fields verifyCommand_def)
  moreover have "FHE_checkSignatures demo_ext 8 [1] [7]"
    and "abi_decode_strings demo_ext [1] = Some (''SET_TORQUE'', ''ECU_A'', ''ECU_B'')"
    by (simp_all add: demo_ext_def demo_decode_def)
  ultimately show ?thesis
    by (simp add: demo_verified_fields)
qed

section \<open>C3: submitting a message\<close>

text \<open>
  Claim C3, as amended. A call of \<^verbatim>\<open>submitEncryptedCanMessage\<close> made while
  \<open>messageCount\<close> is below the largest \<^verbatim>\<open>uint256\<close> (written \<open>- 1\<close>) succeeds:
  the new id is \<open>messageCount + 1\<close>, one more than before also as a number; the three
  handles and the block timestamp are stored under it; the decrypted record under it is
  three empty strings with \<open>isVerified = False\<close>; the event carries the id and the
  timestamp. The counter starts at 0, so the ids are 1, 2, 3, ...
\<close>

theorem submitEncryptedCanMessage_next_id:
  assumes "messageCount s \<noteq> - 1"
  shows "submitEncryptedCanMessage tx c a b s =
       Inr (s\<lparr>messageCount := messageCount s + 1,
              encryptedMessages := (encryptedMessages s)(messageCount s + 1 :=
                \<lparr>msg_id = messageCount s + 1, encryptedCommand = c, encryptedSourceEcu = a,
                 encryptedTargetEcu = b, timestamp = block_timestamp tx\<rparr>),
              decryptedMessages := (decryptedMessages s)(messageCount s + 1 :=
                \<lparr>command = [], sourceEcu = [], targetEcu = [], isVerified = False\<rparr>)\<rparr>,
            [MessageReceived (messageCount s + 1) (block_timestamp tx)])
     \<and> unat (messageCount s + 1) = unat (messageCount s) + 1
     \<and> messageCount init_contract = 0"
  using assms
  by (simp add: submitEncryptedCanMessage_def checked_add_one unat_Suc_uint256 init_contract_def)

theorem submitEncryptedCanMessage_next_id_witness:
  "messageCount demo_verified \<noteq> - 1
   \<and> (case submitEncryptedCanMessage (demo_tx 0) 21 22 23 demo_verified of
        Inl e \<Rightarrow> False
      | Inr (s', evs) \<Rightarrow> messageCount s' = 2
          \<and> encryptedMessages s' 2 = \<lparr>msg_id = 2, encryptedCommand = 21,
               encryptedSourceEcu = 22, encryptedTargetEcu = 23, timestamp = 1000\<rparr>
          \<and> decryptedMessages s' 2 = zero_decrypted
          \<and> evs = [MessageReceived 2 1000])"
  using submitEncryptedCanMessage_next_id [of demo_verified "demo_tx 0" 21 22 23]
  by (simp add: demo_verified_fields zero_decrypted_def demo_tx_def)


text \<open>
  As stated (every call succeeds) the claim fails on reachable storage: with the
  counter full, the checked increment panics.
\<close>

theorem submitEncryptedCanMessage_overflow:
  "reachable demo_ext demo_full
   \<and> messageCount demo_full = - 1
   \<and> submitEncryptedCanMessage (demo_tx 0) 0 0 0 demo_full = Inl Panic_overflow"
  by (simp add: submitEncryptedCanMessage_def checked_add_one reachable_demo_full)
     (simp add: demo_full_def)

section \<open>C4: the life of the decrypted record\<close>



section \<open>C5: requesting a verification\<close>

text \<open>
  Claim C5, as amended. \<^verbatim>\<open>requestCommandVerification\<close> reverts with the reason
  "Already verified" when the message is already verified. It makes no other check of
  its own: for an unverified id it hands the three handles stored under the id to
  \<^verbatim>\<open>FHE.requestDecryption\<close>, reverts when that call reverts, and otherwise stores the
  message id under the request id returned and emits \<^verbatim>\<open>VerificationRequested\<close>.
  Whether it succeeds does not depend on \<open>messageCount\<close> or on the requests already
  recorded.
\<close>

theorem requestCommandVerification_checks:
  "(isVerified (decryptedMessages s messageId) \<longrightarrow>
        requestCommandVerification x tx messageId s = Inl (Revert ''Already verified''))
   \<and> (\<not> isVerified (decryptedMessages s messageId) \<longrightarrow>
        requestCommandVerification x tx messageId s =
          (case FHE_requestDecryption tx
                  [FHE_toBytes32 x (encryptedCommand (encryptedMessages s messageId)),
                   FHE_toBytes32 x (encryptedSourceEcu (encryptedMessages s messageId)),
                   FHE_toBytes32 x (encryptedTargetEcu (encryptedMessages s messageId))]
                  verifyCommand_selector of
             None \<Rightarrow> Inl LibraryRevert
           | Some reqId \<Rightarrow>
               Inr (s\<lparr>requestToMessageId := (requestToMessageId s)(reqId := messageId)\<rparr>,
                    [VerificationRequested messageId])))
   \<and> (isl (requestCommandVerification x tx messageId
              (s\<lparr>messageCount := k, requestToMessageId := f\<rparr>))
        \<longleftrightarrow> isl (requestCommandVerification x tx messageId s))"
  by (simp add: requestCommandVerification_def onlyAuthorized_def Let_def split: option.splits)


text \<open>
  On concrete storage: the verified message 1 is refused; the message 1 with two
  requests outstanding is accepted; the id 5 above the counter 1 is accepted when the
  library accepts its zero handles and refused when the library refuses them.
\<close>

theorem requestCommandVerification_checks_witness:
  "isVerified (decryptedMessages demo_verified 1)
   \<and> requestCommandVerification demo_ext (demo_tx 9) 1 demo_verified
       = Inl (Revert ''Already verified'')
   \<and> requestToMessageId demo_requested 7 = 1 \<and> requestToMessageId demo_requested 8 = 1
   \<and> requestCommandVerification demo_ext (demo_tx 9) 1 demo_requested
       = Inr (demo_requested\<lparr>requestToMessageId := (requestToMessageId demo_requested)(9 := 1)\<rparr>,
              [VerificationRequested 1])
   \<and> messageCount demo_verified = 1
   \<and> requestCommandVerification demo_ext zero_tx 5 demo_verified
       = Inr (demo_verified\<lparr>requestToMessageId := (requestToMessageId demo_verified)(0 := 5)\<rparr>,
              [VerificationRequested 5])
   \<and> requestCommandVerification demo_ext (demo_tx 9) 5 demo_verified = Inl LibraryRevert"
  using requestCommandVerification_checks [of demo_verified 1 demo_ext "demo_tx 9"]
    requestCommandVerification_checks [of demo_requested 1 demo_ext "demo_tx 9"]
    requestCommandVerification_checks [of demo_verified 5 demo_ext zero_tx]
    requestCommandVerification_checks [of demo_verified 5 demo_ext "demo_tx 9"]
  by (simp add: demo_verified_fields demo_requested_fields demo_requested_handles
        zero_decrypted_def zero_encrypted_def)
     (simp add: demo_ext_def demo_tx_def zero_tx_def)


text \<open>
  As stated (the call reverts only when the message is verified) the claim fails: the
  message 1 is submitted and not verified, and the call reverts because the library
  refuses the request; the id 5 was never submitted and is not verified, and the call
  reverts because the library refuses its zero handles.
\<close>

theorem requestCommandVerification_library_refuses:
  "reachable demo_ext demo_requested
   \<and> messageCount demo_requested = 1
   \<and> isVerified (decryptedMessages demo_requested 1) = False
   \<and> requestCommandVerification demo_ext refusing_tx 1 demo_requested = Inl LibraryRevert
   \<and> isVerified (decryptedMessages demo_requested 5) = False
   \<and> requestCommandVerification demo_ext (demo_tx 9) 5 demo_requested = Inl LibraryRevert"
  by (simp add: demo_requested_fields demo_requested_handles zero_decrypted_def
        zero_encrypted_def requestCommandVerification_def onlyAuthorized_def reachable_demo)
     (simp add: demo_ext_def demo_tx_def refusing_tx_def)

section \<open>C6: a callback for an unknown request id\<close>

text \<open>
  Claim C6. A call of \<^verbatim>\<open>verifyCommand\<close> with a request id whose entry in the
  request-id mapping is the default 0 reverts with the reason "Invalid request", and
  the transaction leaves the storage as it was.
\<close>

theorem verifyCommand_unknown_request:
  assumes "requestToMessageId s r = 0"
  shows "verifyCommand x r c p s = Inl (Revert ''Invalid request'')
       \<and> execute x tx (VerifyCommand r c p) s = (s, Inl (Revert ''Invalid request''))"
  using assms by (simp add: verifyCommand_def execute_def)

theorem verifyCommand_unknown_request_witness:
  "requestToMessageId demo_requested 5 = 0
   \<and> verifyCommand demo_ext 5 [1] [7] demo_requested = Inl (Revert ''Invalid request'')
   \<and> execute demo_ext (demo_tx 0) (VerifyCommand 5 [1] [7]) demo_requested
       = (demo_requested, Inl (Revert ''Invalid request''))"
  using verifyCommand_unknown_request [of demo_requested 5 demo_ext "[1]" "[7]" "demo_tx 0"]
  by (simp add: demo_requested_fields)

section \<open>C7: the registry of ECU names\<close>

text \<open>
  Claim C7. A successful \<^verbatim>\<open>verifyCommand\<close> callback whose payload decodes to the
  source ECU \<open>src\<close>: when the counter of \<open>src\<close> is not initialised, the name is appended
  to \<^verbatim>\<open>ecuList\<close> and the counter becomes the handle \<^verbatim>\<open>FHE.add\<close> returned for
  \<open>FHE.asEuint32 0\<close> and \<open>FHE.asEuint32 1\<close>; otherwise the registry is unchanged and
  the counter becomes the handle \<^verbatim>\<open>FHE.add\<close> returned for the old counter and
  \<open>FHE.asEuint32 1\<close>. Consequently, in every reachable storage \<^verbatim>\<open>ecuList\<close> holds each
  name at most once, given that the handles \<^verbatim>\<open>FHE.add\<close> returns for an increment are
  initialised (a property of the external library).
\<close>

theorem ecu_registry_no_duplicates:
  "(verifyCommand x r c p s = Inr (s', evs) \<longrightarrow>
      (case abi_decode_strings x c of
         None \<Rightarrow> False
       | Some (cmd, src, tgt) \<Rightarrow>
           (if FHE_isInitialized x (encryptedEcuStats s src)
            then ecuList s' = ecuList s
               \<and> (\<exists>one. FHE_asEuint32 x 1 = Some one
                     \<and> FHE_add x (encryptedEcuStats s src) one
                         = Some (encryptedEcuStats s' src))
            else ecuList s' = ecuList s @ [src]
               \<and> (\<exists>zero one. FHE_asEuint32 x 0 = Some zero \<and> FHE_asEuint32 x 1 = Some one
                     \<and> FHE_add x zero one = Some (encryptedEcuStats s' src)))))
   \<and> ((\<forall>a one h. FHE_asEuint32 x 1 = Some one \<and> FHE_add x a one = Some h
            \<longrightarrow> FHE_isInitialized x h) \<and> reachable x t
        \<longrightarrow> distinct (ecuList t))"
proof (intro conjI impI)
  assume "verifyCommand x r c p s = Inr (s', evs)"
  then show "case abi_decode_strings x c of
         None \<Rightarrow> False
       | Some (cmd, src, tgt) \<Rightarrow>
           (if FHE_isInitialized x (encryptedEcuStats s src)
            then ecuList s' = ecuList s
               \<and> (\<exists>one. FHE_asEuint32 x 1 = Some one
                     \<and> FHE_add x (encryptedEcuStats s src) one
                         = Some (encryptedEcuStats s' src))
            else ecuList s' = ecuList s @ [src]
               \<and> (\<exists>zero one. FHE_asEuint32 x 0 = Some zero \<and> FHE_asEuint32 x 1 = Some one
                     \<and> FHE_add x zero one = Some (encryptedEcuStats s' src)))"
    by (elim verifyCommand_Inr_cases) (simp add: counter_before_def split: if_splits)
next
  assume "(\<forall>a one h. FHE_asEuint32 x 1 = Some one \<and> FHE_add x a one = Some h
            \<longrightarrow> FHE_isInitialized x h) \<and> reachable x t"
  then show "distinct (ecuList t)"
    using ecuList_invariant [of x t] by blast
qed

theorem ecu_registry_no_duplicates_witness:
  "verifyCommand demo_ext 7 [1] [7] demo_requested = Inr (demo_verified, [MessageVerified 1])
   \<and> ecuList demo_requested = [] \<and> ecuList demo_verified = [''ECU_A'']
   \<and> FHE_asEuint32 demo_ext 0 = Some 1 \<and> FHE_asEuint32 demo_ext 1 = Some 2
   \<and> FHE_add demo_ext 1 2 = Some (encryptedEcuStats demo_verified ''ECU_A'')
   \<and> verifyCommand demo_ext 10 [2] [7] demo_second_requested
       = Inr (demo_second_verified, [MessageVerified 2])
   \<and> ecuList demo_second_verified = [''ECU_A'']
   \<and> FHE_add demo_ext (encryptedEcuStats demo_second_requested ''ECU_A'') 2
       = Some (encryptedEcuStats demo_second_verified ''ECU_A'')
   \<and> FHE_isInitialized demo_ext (encryptedEcuStats demo_second_verified ''ECU_A'')
   \<and> reachable demo_ext demo_second_verified
   \<and> distinct (ecuList demo_second_verified)"
proof -
  have lib: "\<forall>a one h. FHE_asEuint32 demo_ext 1 = Some one \<and> FHE_add demo_ext a one = Some h
        \<longrightarrow> FHE_isInitialized demo_ext h"
    by (auto simp: demo_ext_def)
  have calls: "FHE_asEuint32 demo_ext 0 = Some 1" "FHE_asEuint32 demo_ext 1 = Some 2"
    "FHE_add demo_ext 1 2 = Some 3" "FHE_add demo_ext 3 2 = Some 5"
    by (simp_all add: demo_ext_def)
  have "FHE_isInitialized demo_ext (encryptedEcuStats demo_second_verified ''ECU_A'')"
    by (simp add: demo_second_verified_fields) (simp add: demo_ext_def)
  with lib calls show ?thesis
    using ecu_registry_no_duplicates [of demo_ext 7 "[1]" "[7]" demo_requested demo_verified
      "[MessageVerified 1]" demo_second_verified]
    ecu_registry_no_duplicates [of demo_ext 10 "[2]" "[7]" demo_second_requested
      demo_second_verified "[MessageVerified 2]" demo_second_verified]
    by (simp add: demo_verified_step demo_second_verified_step reachable_demo
        demo_requested_fields demo_verified_fields demo_second_verified_fields
        demo_second_requested_fields)
qed

section \<open>C8: the trust score\<close>

text \<open>
  Claim C8, as amended. Let \<open>n\<close> be the number of submitted ids (1 up to
  \<open>messageCount\<close>) whose message is verified with the source ECU \<open>ecuId\<close>, and \<open>k\<close> the
  number of those that pass \<^verbatim>\<open>validateCommand\<close>. While \<open>messageCount\<close> is below the
  largest \<^verbatim>\<open>uint256\<close> and \<open>100 * k\<close> fits a \<^verbatim>\<open>uint256\<close>,
  \<^verbatim>\<open>calculateEcuTrustScore\<close> returns 100 when \<open>n = 0\<close> and \<open>k * 100 div n\<close> otherwise,
  hence 100 when all pass. The contract compares names by their \<^verbatim>\<open>keccak256\<close> hash:
  the stored source names that hash like \<open>ecuId\<close> are taken to be \<open>ecuId\<close>.
\<close>

theorem calculateEcuTrustScore_value:
  assumes "messageCount s \<noteq> - 1"
    and "\<forall>i \<in> set (message_ids s).
      isVerified (decryptedMessages s i)
      \<and> keccak256 x (abi_encodePacked (sourceEcu (decryptedMessages s i)))
          = keccak256 x (abi_encodePacked ecuId)
      \<longrightarrow> sourceEcu (decryptedMessages s i) = ecuId"
    and "length (passing s ecuId) * 100 < 2 ^ 256"
  shows "calculateEcuTrustScore x s ecuId =
       Inr (if length (verified_from s ecuId) = 0 then 100
            else of_nat (length (passing s ecuId) * 100 div length (verified_from s ecuId)))
     \<and> (length (passing s ecuId) = length (verified_from s ecuId)
        \<longrightarrow> calculateEcuTrustScore x s ecuId = Inr 100)"
proof -
  have h: "length (verified_from s ecuId)
      = trust_hits x s ecuId 1 (Suc (unat (messageCount s)))"
    using assms(2) by (rule verified_from_hits)
  with assms(1,3) have "calculateEcuTrustScore x s ecuId = Inr 100"
    by (simp add: trust_score_by_hits passing_all)
  then show ?thesis
    by (simp add: passing_all)
qed

theorem calculateEcuTrustScore_value_witness:
  "messageCount demo_second_verified \<noteq> - 1
   \<and> verified_from demo_second_verified ''ECU_A'' = [1, 2]
   \<and> passing demo_second_verified ''ECU_A'' = [1, 2]
   \<and> calculateEcuTrustScore demo_ext demo_second_verified ''ECU_A'' = Inr 100
   \<and> verified_from demo_second_verified ''ECU_B'' = []
   \<and> calculateEcuTrustScore demo_ext demo_second_verified ''ECU_B'' = Inr 100"
  using calculateEcuTrustScore_value [of demo_second_verified demo_ext "''ECU_A''"]
    calculateEcuTrustScore_value [of demo_second_verified demo_ext "''ECU_B''"]
  by (simp add: passing_all verified_from_def demo_second_message_ids
        demo_second_verified_fields demo_second_decrypted_1)
     (simp add: demo_ext_def demo_keccak_def abi_encodePacked_def numeral_2_eq_2 [symmetric])

text \<open>
  As stated (the score is returned for every storage) the claim fails on reachable
  storage: with the counter full no verified message has the source \<open>ECU_A\<close>, and the
  call panics on the increment of the loop index instead of returning 100.
\<close>

theorem calculateEcuTrustScore_overflow:
  "reachable demo_ext demo_full
   \<and> verified_from demo_full ''ECU_A'' = []
   \<and> calculateEcuTrustScore demo_ext demo_full ''ECU_A'' = Inl Panic_overflow"
proof -
  have "messageCount demo_full = - 1"
    by (simp add: demo_full_def)
  then have "calculateEcuTrustScore_loop demo_ext demo_full ''ECU_A'' 1 0 0 = Inl Panic_overflow"
    by (rule calculateEcuTrustScore_loop_full)
  then have "calculateEcuTrustScore demo_ext demo_full ''ECU_A'' = Inl Panic_overflow"
    by (simp add: calculateEcuTrustScore_def)
  moreover have "verified_from demo_full ''ECU_A'' = []"
    by (simp add: verified_from_def demo_full_def zero_decrypted_def)
  ultimately show ?thesis
    by (simp add: reachable_demo_full)
qed

section \<open>C9: the callback of the aggregate decryption\<close>

text \<open>
  Claim C9. A call of \<^verbatim>\<open>decryptEcuStats\<close>, whether it succeeds or reverts, leaves
  every field of the storage as it was; when it succeeds it returns the storage it was
  given and emits nothing, so the decoded counter value is not kept anywhere.
\<close>

theorem decryptEcuStats_writes_nothing:
  "fst (execute x tx (DecryptEcuStats r c p) s) = s
   \<and> (case decryptEcuStats x r c p s of Inl e \<Rightarrow> True | Inr (s', evs) \<Rightarrow> s' = s \<and> evs = [])"
  by (simp add: execute_def decryptEcuStats_def Let_def split: sum.splits option.splits)

theorem decryptEcuStats_writes_nothing_witness:
  "decryptEcuStats demo_ext 9 [3] [7] demo_stats_requested = Inr (demo_stats_requested, [])
   \<and> fst (execute demo_ext (demo_tx 0) (DecryptEcuStats 9 [3] [7]) demo_stats_requested)
       = demo_stats_requested
   \<and> fst (execute demo_ext (demo_tx 0) (DecryptEcuStats 9 [3] [8]) demo_stats_requested)
       = demo_stats_requested"
  using decryptEcuStats_writes_nothing [of demo_ext "demo_tx 0" 9 "[3]" "[7]" demo_stats_requested]
    decryptEcuStats_writes_nothing [of demo_ext "demo_tx 0" 9 "[3]" "[8]" demo_stats_requested]
  by (simp add: demo_defs)

section \<open>C10: the caller is never consulted\<close>

text \<open>
  Claim C10. The modifier \<^verbatim>\<open>onlyAuthorized\<close> imposes no condition: a function under
  it is its body. No state-changing entry point depends on the caller: with any other
  \<^verbatim>\<open>msg.sender\<close> the result of the call, and of the transaction, is the same. A
  \<^verbatim>\<open>verifyCommand\<close> callback is accepted exactly when the request id is known, the
  message is not yet verified, the external check of the proof passes, the payload
  decodes and the library calls on the counter of the source ECU succeed; a
  \<^verbatim>\<open>decryptEcuStats\<close> callback exactly when the stored hash resolves to a registered
  name, the proof check passes and the payload decodes. None of these conditions reads
  the caller, and only the proof check authenticates the delivery.
\<close>

theorem caller_is_never_consulted:
  "onlyAuthorized messageId body = body
   \<and> dispatch x (tx\<lparr>msg_sender := caller\<rparr>) c s = dispatch x tx c s
   \<and> execute x (tx\<lparr>msg_sender := caller\<rparr>) c s = execute x tx c s
   \<and> (\<not> isl (dispatch x tx (VerifyCommand r cl p) s) \<longleftrightarrow>
        requestToMessageId s r \<noteq> 0
        \<and> \<not> isVerified (decryptedMessages s (requestToMessageId s r))
        \<and> FHE_checkSignatures x r cl p
        \<and> (case abi_decode_strings x cl of
             None \<Rightarrow> False
           | Some (cmd, src, tgt) \<Rightarrow>
               (\<exists>before one incr. counter_before x s src = Some before
                  \<and> FHE_asEuint32 x 1 = Some one \<and> FHE_add x before one = Some incr)))
   \<and> (\<not> isl (dispatch x tx (DecryptEcuStats r cl p) s) \<longleftrightarrow>
        \<not> isl (getEcuFromHash x s (requestToMessageId s r))
        \<and> FHE_checkSignatures x r cl p
        \<and> abi_decode_uint32 x cl \<noteq> None)"
proof -
  have d: "dispatch x (tx\<lparr>msg_sender := caller\<rparr>) c s = dispatch x tx c s"
    by (cases c)
      (simp_all add: submitEncryptedCanMessage_def requestCommandVerification_def
        requestEcuStatsDecryption_def onlyAuthorized_def Let_def split: sum.splits)
  have k: "\<not> isl (verifyCommand_counter x src s1) \<longleftrightarrow>
      (\<exists>before one incr. counter_before x s1 src = Some before
          \<and> FHE_asEuint32 x 1 = Some one \<and> FHE_add x before one = Some incr)" for src s1
    by (auto simp: verifyCommand_counter_def counter_before_def split: option.splits)
  have v: "\<not> isl (verifyCommand x r cl p s) \<longleftrightarrow>
        requestToMessageId s r \<noteq> 0
        \<and> \<not> isVerified (decryptedMessages s (requestToMessageId s r))
        \<and> FHE_checkSignatures x r cl p
        \<and> (case abi_decode_strings x cl of
             None \<Rightarrow> False
           | Some (cmd, src, tgt) \<Rightarrow>
               (\<exists>before one incr. counter_before x s src = Some before
                  \<and> FHE_asEuint32 x 1 = Some one \<and> FHE_add x before one = Some incr))"
  proof (cases "abi_decode_strings x cl")
    case None
    then show ?thesis by (simp add: verifyCommand_def Let_def)
  next
    case (Some t)
    obtain cmd src tgt where t: "t = (cmd, src, tgt)" by (cases t)
    let ?s1 = "s\<lparr>decryptedMessages := (decryptedMessages s)(requestToMessageId s r :=
        \<lparr>command = cmd, sourceEcu = src, targetEcu = tgt, isVerified = True\<rparr>)\<rparr>"
    have "counter_before x ?s1 src = counter_before x s src"
      by (simp add: counter_before_def)
    with k [of src ?s1] have "\<not> isl (verifyCommand_counter x src ?s1) \<longleftrightarrow>
      (\<exists>before one incr. counter_before x s src = Some before
          \<and> FHE_asEuint32 x 1 = Some one \<and> FHE_add x before one = Some incr)"
      by simp
    with Some t show ?thesis
      by (simp add: verifyCommand_def Let_def split: sum.splits) (auto simp: isl_def)
  qed
  have e: "\<not> isl (decryptEcuStats x r cl p s) \<longleftrightarrow>
        \<not> isl (getEcuFromHash x s (requestToMessageId s r))
        \<and> FHE_checkSignatures x r cl p
        \<and> abi_decode_uint32 x cl \<noteq> None"
    by (auto simp: decryptEcuStats_def Let_def split: sum.splits option.splits)
  show ?thesis
    using d v e by (simp add: onlyAuthorized_def execute_def)
qed


text \<open>
  On concrete storage, for another caller: a good callback is accepted and one with a
  bad proof refused under the library that always succeeds; under the library that
  refuses to add to a stored counter, the callback for the second message of
  \<open>ECU_A\<close> passes the four checks of the contract and reverts in \<^verbatim>\<open>FHE.add\<close>.
\<close>

theorem caller_is_never_consulted_witness:
  "dispatch demo_ext ((demo_tx 0)\<lparr>msg_sender := 99\<rparr>) (VerifyCommand 7 [1] [7]) demo_requested
     = dispatch demo_ext (demo_tx 0) (VerifyCommand 7 [1] [7]) demo_requested
   \<and> \<not> isl (dispatch demo_ext ((demo_tx 0)\<lparr>msg_sender := 99\<rparr>) (VerifyCommand 7 [1] [7])
             demo_requested)
   \<and> isl (dispatch demo_ext ((demo_tx 0)\<lparr>msg_sender := 99\<rparr>) (VerifyCommand 7 [1] [8])
             demo_requested)
   \<and> requestToMessageId demo_second_requested 10 \<noteq> 0
   \<and> isVerified (decryptedMessages demo_second_requested
         (requestToMessageId demo_second_requested 10)) = False
   \<and> FHE_checkSignatures strict_ext 10 [2] [7]
   \<and> abi_decode_strings strict_ext [2] = Some (''BRAKE'', ''ECU_A'', ''ECU_C'')
   \<and> counter_before strict_ext demo_second_requested ''ECU_A'' = Some 3
   \<and> FHE_asEuint32 strict_ext 1 = Some 2
   \<and> FHE_add strict_ext 3 2 = None
   \<and> dispatch strict_ext ((demo_tx 0)\<lparr>msg_sender := 99\<rparr>) (VerifyCommand 10 [2] [7])
        demo_second_requested = Inl LibraryRevert
   \<and> dispatch strict_ext (demo_tx 0) (VerifyCommand 10 [2] [7])
        demo_second_requested = Inl LibraryRevert"
proof -
  have lib: "FHE_checkSignatures strict_ext 10 [2] [7]"
    "abi_decode_strings strict_ext [2] = Some (''BRAKE'', ''ECU_A'', ''ECU_C'')"
    "counter_before strict_ext demo_second_requested ''ECU_A'' = Some 3"
    "FHE_asEuint32 strict_ext 1 = Some 2" "FHE_add strict_ext 3 2 = None"
    by (simp_all add: strict_ext_def demo_ext_def demo_decode_def counter_before_def
        demo_second_requested_fields)
  have refused: "verifyCommand strict_ext 10 [2] [7] demo_second_requested = Inl LibraryRevert"
    using lib
    by (simp add: verifyCommand_def verifyCommand_counter_def demo_second_requested_more
        demo_second_requested_fields zero_decrypted_def counter_before_def
        split: if_splits)
  from lib refused show ?thesis
    using caller_is_never_consulted [where x = demo_ext and tx = "demo_tx 0" and caller = 99
      and c = "VerifyCommand 7 [1] [7]" and s = demo_requested and r = 7 and cl = "[1]"
      and p = "[7]"]
    caller_is_never_consulted [where x = demo_ext and tx = "demo_tx 0" and caller = 99
      and c = "VerifyCommand 7 [1] [8]" and s = demo_requested and r = 7 and cl = "[1]"
      and p = "[8]"]
    caller_is_never_consulted [where x = strict_ext and tx = "demo_tx 0" and caller = 99
      and c = "VerifyCommand 10 [2] [7]" and s = demo_second_requested and r = 10
      and cl = "[2]" and p = "[7]"]
    by (simp add: demo_requested_fields demo_second_requested_more zero_decrypted_def)
       (simp add: demo_defs counter_before_def)
qed

end
